theory Spec2Isabelle
  imports Complex_Main "HOL-Library.Sublist"
begin

section \<open>Strings\<close>

text \<open>
  A Python \<open>str\<close> is a sequence of Unicode code points; it is modelled as a list of
  natural numbers, one per code point, so that \<open>len\<close> is \<open>length\<close>. The function
  \<open>S\<close> reads an ASCII literal as such a string.
\<close>

type_synonym pystr = "nat list"

definition S :: "string \<Rightarrow> pystr" where
  "S cs = map of_char cs"

text \<open>
  \<open>str.isspace\<close>, \<open>str.strip\<close>, \<open>str.split\<close> and the regular expression class
  \<open>\s\<close> of a \<open>str\<close> pattern all use the same set of code points
  (\<open>Py_UNICODE_ISSPACE\<close>).
\<close>

definition is_space :: "nat \<Rightarrow> bool" where
  "is_space c \<longleftrightarrow>
     (9 \<le> c \<and> c \<le> 13) \<or> (28 \<le> c \<and> c \<le> 32) \<or> c = 133 \<or> c = 160 \<or> c = 5760 \<or>
     (8192 \<le> c \<and> c \<le> 8202) \<or> c = 8232 \<or> c = 8233 \<or> c = 8239 \<or> c = 8287 \<or> c = 12288"

definition lstrip :: "pystr \<Rightarrow> pystr" where
  "lstrip s = dropWhile is_space s"

definition rstrip :: "pystr \<Rightarrow> pystr" where
  "rstrip s = rev (dropWhile is_space (rev s))"

definition strip :: "pystr \<Rightarrow> pystr" where
  "strip s = lstrip (rstrip s)"

text \<open>\<open>s.replace(old, new)\<close> for one-character \<open>old\<close> and \<open>new\<close>.\<close>

definition replace_ch :: "nat \<Rightarrow> nat \<Rightarrow> pystr \<Rightarrow> pystr" where
  "replace_ch old new s = map (\<lambda>c. if c = old then new else c) s"

text \<open>
  \<open>re.sub(r"\s+", " ", s)\<close>: every maximal run of white space becomes one space
  (code point 32). The scan is leftmost and \<open>\s+\<close> is greedy, so a match that starts at
  a white-space character takes the whole run.
\<close>

function sub_ws :: "pystr \<Rightarrow> pystr" where
  "sub_ws [] = []"
| "sub_ws (c # cs) =
     (if is_space c then 32 # sub_ws (dropWhile is_space cs) else c # sub_ws cs)"
  by pat_completeness auto
termination
  by (relation "measure length") (auto simp: less_Suc_eq_le length_dropWhile_le)

text \<open>Maximal runs of characters satisfying \<open>P\<close>, left to right.\<close>

function runs :: "(nat \<Rightarrow> bool) \<Rightarrow> pystr \<Rightarrow> pystr list" where
  "runs P [] = []"
| "runs P (c # cs) =
     (if P c then (c # takeWhile P cs) # runs P (dropWhile P cs) else runs P cs)"
  by pat_completeness auto
termination
  by (relation "measure (\<lambda>(P, s). length s)") (auto simp: less_Suc_eq_le length_dropWhile_le)

text \<open>\<open>s.split()\<close> with no argument: the maximal runs of non-white-space characters.\<close>

definition split_ws :: "pystr \<Rightarrow> pystr list" where
  "split_ws s = runs (\<lambda>c. \<not> is_space c) s"

text \<open>\<open>s.split(",")\<close>, for any one-character separator.\<close>

fun cons_hd :: "'a \<Rightarrow> 'a list list \<Rightarrow> 'a list list" where
  "cons_hd c [] = [[c]]"
| "cons_hd c (p # ps) = (c # p) # ps"

fun split_on :: "nat \<Rightarrow> pystr \<Rightarrow> pystr list" where
  "split_on sep [] = [[]]"
| "split_on sep (c # cs) = (if c = sep then [] # split_on sep cs else cons_hd c (split_on sep cs))"

text \<open>\<open>" ".join(words)\<close>.\<close>

fun join_sp :: "pystr list \<Rightarrow> pystr" where
  "join_sp [] = []"
| "join_sp [w] = w"
| "join_sp (w # v # ws) = w @ 32 # join_sp (v # ws)"

text \<open>\<open>s.endswith(suf)\<close> and \<open>sub in s\<close>.\<close>

definition endswith :: "pystr \<Rightarrow> pystr \<Rightarrow> bool" where
  "endswith s suf \<longleftrightarrow> length suf \<le> length s \<and> drop (length s - length suf) s = suf"

fun contains :: "pystr \<Rightarrow> pystr \<Rightarrow> bool" where
  "contains [] sub = (sub = [])"
| "contains (c # cs) sub = (take (length sub) (c # cs) = sub \<or> contains cs sub)"

text \<open>
  \<open>re.split(pattern, s)\<close> for a pattern without groups that matches no empty string.
  The pattern is given by \<open>m\<close>: \<open>m t = Some r\<close> when the pattern matches at the start of
  \<open>t\<close> and \<open>r\<close> is what follows the match. The scan is leftmost: the piece before the
  first match, then the split of the rest.
\<close>

function re_split :: "(pystr \<Rightarrow> pystr option) \<Rightarrow> pystr \<Rightarrow> pystr list" where
  "re_split m [] = [[]]"
| "re_split m (c # cs) =
     (case m (c # cs) of
        None \<Rightarrow> cons_hd c (re_split m cs)
      | Some r \<Rightarrow> if length r \<le> length cs then [] # re_split m r
                  else cons_hd c (re_split m cs))"
  by pat_completeness auto
termination
  by (relation "measure (\<lambda>(m, s). length s)") auto

section \<open>The runtime's Unicode tables\<close>

text \<open>
  Four operations of the source consult the Unicode character database of the Python
  runtime, which is not part of the repository: \<open>str.lower\<close>, \<open>str.isdigit\<close>, the
  word characters of \<open>\b\<close> (alphanumeric or underscore) and the letters that
  \<open>re.IGNORECASE\<close> identifies. They are parameters of the model, so that a theorem
  stated for every \<open>U\<close> holds whatever the tables are.
\<close>

record ucd =
  str_lower :: "pystr \<Rightarrow> pystr"
  ch_isdigit :: "nat \<Rightarrow> bool"
  ch_isalnum :: "nat \<Rightarrow> bool"
  ch_ieq :: "nat \<Rightarrow> nat \<Rightarrow> bool"

definition ascii_lower :: "nat \<Rightarrow> nat" where
  "ascii_lower c = (if 65 \<le> c \<and> c \<le> 90 then c + 32 else c)"

text \<open>The tables on ASCII text: what the runtime computes when every string is ASCII.\<close>

definition ascii_ucd :: ucd where
  "ascii_ucd = \<lparr>
     str_lower = map ascii_lower,
     ch_isdigit = (\<lambda>c. 48 \<le> c \<and> c \<le> 57),
     ch_isalnum = (\<lambda>c. (48 \<le> c \<and> c \<le> 57) \<or> (65 \<le> c \<and> c \<le> 90) \<or> (97 \<le> c \<and> c \<le> 122)),
     ch_ieq = (\<lambda>p c. ascii_lower p = ascii_lower c) \<rparr>"

definition is_wordch :: "ucd \<Rightarrow> nat \<Rightarrow> bool" where
  "is_wordch U c \<longleftrightarrow> ch_isalnum U c \<or> c = 95"

definition str_isdigit :: "ucd \<Rightarrow> pystr \<Rightarrow> bool" where
  "str_isdigit U w \<longleftrightarrow> w \<noteq> [] \<and> list_all (ch_isdigit U) w"

section \<open>Floating point\<close>

text \<open>
  A Python \<open>float\<close> is an IEEE 754 binary64 number. Every float of this program is
  finite, so a float is modelled by the (rational) real number it denotes, and each operation
  rounds its exact result to the nearest number with a 53-bit significand, ties to even
  (\<open>fl\<close>). The exponent range is not modelled: the operands are lengths of lists and
  the constants of the source, which stay far from overflow and underflow.
\<close>

fun nbits :: "nat \<Rightarrow> nat" where
  "nbits n = (if n = 0 then 0 else Suc (nbits (n div 2)))"

declare nbits.simps [simp del]

text \<open>\<open>ilog2 q\<close> is the integer \<open>e\<close> with \<open>2^e \<le> q < 2^(e+1)\<close>, for \<open>q > 0\<close>.\<close>

definition ilog2 :: "real \<Rightarrow> int" where
  "ilog2 q = (if 1 \<le> q then int (nbits (nat \<lfloor>q\<rfloor>)) - 1
              else - int (nbits (nat (\<lceil>1 / q\<rceil> - 1))))"

definition pow2 :: "int \<Rightarrow> real" where
  "pow2 k = (if 0 \<le> k then 2 ^ nat k else 1 / 2 ^ nat (- k))"

definition round_half_even :: "real \<Rightarrow> int" where
  "round_half_even x =
     (let f = \<lfloor>x\<rfloor>; d = x - of_int f
      in if d < 1 / 2 then f else if 1 / 2 < d then f + 1 else if even f then f else f + 1)"

definition fl :: "real \<Rightarrow> real" where
  "fl q = (if q = 0 then 0
           else let u = pow2 (ilog2 \<bar>q\<bar> - 52) in of_int (round_half_even (q / u)) * u)"

definition fsub :: "real \<Rightarrow> real \<Rightarrow> real" where
  "fsub a b = fl (a - b)"

definition fmul :: "real \<Rightarrow> real \<Rightarrow> real" where
  "fmul a b = fl (a * b)"

datatype error = ZeroDivisionError

text \<open>\<open>a / b\<close> on two ints: the correctly rounded quotient, or the exception.\<close>

definition truediv :: "nat \<Rightarrow> nat \<Rightarrow> error + real" where
  "truediv a b = (if b = 0 then Inl ZeroDivisionError else Inr (fl (of_nat a / of_nat b)))"

text \<open>
  \<open>round(x, nd)\<close> on a float: the exact value of \<open>x\<close> is rounded to \<open>nd\<close> decimal
  places, ties to even, and the decimal is read back as a float.
\<close>

definition py_round :: "nat \<Rightarrow> real \<Rightarrow> real" where
  "py_round nd x = fl (of_int (round_half_even (x * 10 ^ nd)) / 10 ^ nd)"

section \<open>Counters and dictionaries\<close>

text \<open>
  A \<open>dict\<close> keeps its keys in insertion order; it is an association list with distinct
  keys. \<open>collections.Counter\<close> is a dict of counts whose \<open>get\<close> defaults to the given
  value.
\<close>

type_synonym ('k, 'v) dict = "('k \<times> 'v) list"

fun dict_set :: "'k \<Rightarrow> 'v \<Rightarrow> ('k, 'v) dict \<Rightarrow> ('k, 'v) dict" where
  "dict_set k v [] = [(k, v)]"
| "dict_set k v ((k', v') # d) = (if k' = k then (k', v) # d else (k', v') # dict_set k v d)"

definition dict_get :: "('k, 'v) dict \<Rightarrow> 'k \<Rightarrow> 'v \<Rightarrow> 'v" where
  "dict_get d k dflt = (case map_of d k of None \<Rightarrow> dflt | Some v \<Rightarrow> v)"

text \<open>\<open>c[k] += n\<close> on a Counter.\<close>

definition counter_add :: "'k \<Rightarrow> nat \<Rightarrow> ('k, nat) dict \<Rightarrow> ('k, nat) dict" where
  "counter_add k n c = dict_set k (dict_get c k 0 + n) c"

text \<open>\<open>Counter(xs)\<close>: one increment for each element, in order.\<close>

definition Counter :: "'k list \<Rightarrow> ('k, nat) dict" where
  "Counter xs = fold (\<lambda>x c. counter_add x 1 c) xs []"

text \<open>\<open>c.update(d)\<close> for a Counter \<open>d\<close>: the counts of \<open>d\<close> are added to those of \<open>c\<close>.\<close>

definition counter_update :: "('k, nat) dict \<Rightarrow> ('k, nat) dict \<Rightarrow> ('k, nat) dict" where
  "counter_update c d = fold (\<lambda>(k, n) c. counter_add k n c) d c"

text \<open>
  \<open>c.most_common(n)\<close> is \<open>heapq.nlargest(n, c.items(), key=count)\<close>, which the library
  documents as \<open>sorted(items, key=count, reverse=True)[:n]\<close>: a stable sort, so entries of
  equal count stay in insertion order.
\<close>

definition most_common :: "nat \<Rightarrow> ('k, nat) dict \<Rightarrow> ('k \<times> nat) list" where
  "most_common n c = take n (sort_key (\<lambda>(w, k). - int k) c)"

section \<open>Text normalizer\<close>

definition normalize_text :: "pystr \<Rightarrow> pystr" where
  "normalize_text s =
     (let s1 = replace_ch 8221 34 (replace_ch 8220 34 (replace_ch 8217 39 s))
      in strip (sub_ws s1))"

section \<open>Tokenizer\<close>

text \<open>
  \<open>WORD_RE = [A-Za-z0-9']+\<close>; \<open>findall\<close> returns the maximal runs. A run holds ASCII
  letters, digits and apostrophes only, on which \<open>str.lower\<close> is \<open>ascii_lower\<close>.
\<close>

definition is_word_re :: "nat \<Rightarrow> bool" where
  "is_word_re c \<longleftrightarrow> (65 \<le> c \<and> c \<le> 90) \<or> (97 \<le> c \<and> c \<le> 122) \<or> (48 \<le> c \<and> c \<le> 57) \<or> c = 39"

definition tokenize_words :: "pystr \<Rightarrow> pystr list" where
  "tokenize_words text = map (map ascii_lower) (runs is_word_re text)"

text \<open>
  The sentence delimiter \<open>[.!?]+(?:\s|$)\<close> at the start of \<open>t\<close>. \<open>[.!?]+\<close> is greedy
  and giving a character back leaves a terminator next, which is neither white space nor
  the end, so the only candidate is the whole run of terminators. \<open>$\<close> also matches
  before a final newline, but there \<open>\s\<close>, tried first, has matched the newline.
\<close>

definition is_term :: "nat \<Rightarrow> bool" where
  "is_term c \<longleftrightarrow> c = 46 \<or> c = 33 \<or> c = 63"

definition sent_delim :: "pystr \<Rightarrow> pystr option" where
  "sent_delim t =
     (case t of
        [] \<Rightarrow> None
      | c # cs \<Rightarrow>
          if is_term c then
            (case dropWhile is_term cs of
               [] \<Rightarrow> Some []
             | d # ds \<Rightarrow> if is_space d then Some ds else None)
          else None)"

definition split_sentences :: "pystr \<Rightarrow> pystr list" where
  "split_sentences text =
     (let parts = re_split sent_delim (strip text)
      in map strip (filter (\<lambda>p. strip p \<noteq> []) parts))"

section \<open>Syllable estimator\<close>

definition is_az :: "nat \<Rightarrow> bool" where
  "is_az c \<longleftrightarrow> 97 \<le> c \<and> c \<le> 122"

definition is_vowel :: "nat \<Rightarrow> bool" where
  "is_vowel c \<longleftrightarrow> c \<in> set (S ''aeiouy'')"

text \<open>The loop over the characters: the state is \<open>prev_vowel\<close> and \<open>syllables\<close>.\<close>

fun syllable_loop :: "bool \<Rightarrow> nat \<Rightarrow> pystr \<Rightarrow> nat" where
  "syllable_loop prev_vowel syllables [] = syllables"
| "syllable_loop prev_vowel syllables (ch # w) =
     syllable_loop (is_vowel ch)
       (if is_vowel ch \<and> \<not> prev_vowel then syllables + 1 else syllables) w"

definition count_syllables :: "ucd \<Rightarrow> pystr \<Rightarrow> nat" where
  "count_syllables U word =
     (let w = filter is_az (str_lower U word)
      in if w = [] then 0
         else let syllables = syllable_loop False 0 w;
                  syllables' =
                    (if endswith w (S ''e'') \<and> syllables > 1 \<and>
                        \<not> (endswith w (S ''le'') \<or> endswith w (S ''ye''))
                     then syllables - 1 else syllables)
              in max 1 syllables')"

section \<open>Readability scorer\<close>

definition flesch_reading_ease :: "ucd \<Rightarrow> pystr list \<Rightarrow> pystr list \<Rightarrow> error + real" where
  "flesch_reading_ease U words sentences =
     (if words = [] \<or> sentences = [] then Inr 0
      else
        let syllable_count = sum_list (map (count_syllables U) words) in
        case truediv (length words) (max 1 (length sentences)) of
          Inl e \<Rightarrow> Inl e
        | Inr wps \<Rightarrow>
            (case truediv syllable_count (max 1 (length words)) of
               Inl e \<Rightarrow> Inl e
             | Inr spw \<Rightarrow>
                 Inr (py_round 1
                       (fsub (fsub (fl (206835 / 1000)) (fmul (fl (1015 / 1000)) wps))
                             (fmul (fl (846 / 10)) spw)))))"

definition score_band :: "real \<Rightarrow> pystr" where
  "score_band flesch =
     (if flesch \<ge> 90 then S ''Very easy''
      else if flesch \<ge> 80 then S ''Easy''
      else if flesch \<ge> 70 then S ''Fairly easy''
      else if flesch \<ge> 60 then S ''Standard''
      else if flesch \<ge> 50 then S ''Fairly difficult''
      else if flesch \<ge> 30 then S ''Difficult''
      else S ''Very difficult'')"

section \<open>Heading extractor\<close>

text \<open>
  \<open>text.splitlines()\<close>: the line boundaries are the code points below, and a carriage
  return followed by a line feed is one boundary. A final boundary starts no new line.
\<close>

definition is_linebreak :: "nat \<Rightarrow> bool" where
  "is_linebreak c \<longleftrightarrow>
     (10 \<le> c \<and> c \<le> 13) \<or> (28 \<le> c \<and> c \<le> 30) \<or> c = 133 \<or> c = 8232 \<or> c = 8233"

function splitlines :: "pystr \<Rightarrow> pystr list" where
  "splitlines [] = []"
| "splitlines (c # cs) =
     (let line = takeWhile (\<lambda>x. \<not> is_linebreak x) (c # cs)
      in case dropWhile (\<lambda>x. \<not> is_linebreak x) (c # cs) of
           [] \<Rightarrow> [line]
         | b # r \<Rightarrow>
             (case r of
                [] \<Rightarrow> [line]
              | d # r' \<Rightarrow> line # splitlines (if b = 13 \<and> d = 10 then r' else d # r')))"
  by pat_completeness auto
termination
proof (relation "measure length")
  show "wf (measure length)" by simp
next
  fix c b d :: nat and cs r r' :: pystr
  assume a: "dropWhile (\<lambda>x. \<not> is_linebreak x) (c # cs) = b # r" and b: "r = d # r'"
  have "length (dropWhile (\<lambda>x. \<not> is_linebreak x) (c # cs)) \<le> length (c # cs)"
    by (rule length_dropWhile_le)
  with a b have "length (d # r') < length (c # cs)" by simp
  then show "(if b = 13 \<and> d = 10 then r' else d # r', c # cs) \<in> measure length" by simp
qed

text \<open>
  \<open>re.match(r"^\s*(#{1,6})\s+\S+", line)\<close>: the level of a markdown heading line. Each
  greedy quantifier has one candidate only: giving back a white-space character leaves
  white space before \<open>#\<close> or before \<open>\S\<close>, and giving back a \<open>#\<close> (or stopping at six
  or more) leaves a \<open>#\<close> where white space is required.
\<close>

definition md_level :: "pystr \<Rightarrow> nat option" where
  "md_level line =
     (let r = dropWhile is_space line;
          level = length (takeWhile (\<lambda>c. c = 35) r);
          r' = dropWhile (\<lambda>c. c = 35) r
      in if 1 \<le> level \<and> level \<le> 6 \<and> r' \<noteq> [] \<and> is_space (hd r') \<and>
            dropWhile is_space r' \<noteq> []
         then Some level else None)"

text \<open>The key \<open>f"h{level}"\<close>, for a level of one decimal digit.\<close>

definition hkey :: "nat \<Rightarrow> pystr" where
  "hkey level = [104, 48 + level]"

definition md_counts_of :: "pystr list \<Rightarrow> (pystr, nat) dict" where
  "md_counts_of lines =
     fold (\<lambda>line md_counts.
             case md_level line of
               None \<Rightarrow> md_counts
             | Some level \<Rightarrow> counter_add (hkey level) 1 md_counts) lines []"

text \<open>
  \<open>len(re.findall(fr"<h{level}\b", text, flags=re.IGNORECASE))\<close>. \<open><\<close> and the digit
  have no case; the characters that lower to \<open>h\<close> are \<open>h\<close> and \<open>H\<close>. After the digit,
  a word character, \<open>\b\<close> holds at the end of the text and before a non-word character.
\<close>

fun count_tag :: "ucd \<Rightarrow> nat \<Rightarrow> pystr \<Rightarrow> nat" where
  "count_tag U level (a # b # c # rest) =
     (if a = 60 \<and> (b = 104 \<or> b = 72) \<and> c = 48 + level \<and>
         (case rest of [] \<Rightarrow> True | d # _ \<Rightarrow> \<not> is_wordch U d)
      then 1 + count_tag U level rest
      else count_tag U level (b # c # rest))"
| "count_tag U level _ = 0"

definition html_counts_of :: "ucd \<Rightarrow> pystr \<Rightarrow> (pystr, nat) dict" where
  "html_counts_of U text =
     fold (\<lambda>level html_counts. dict_set (hkey level) (count_tag U level text) html_counts)
       [1..<7] []"

definition extract_headings :: "ucd \<Rightarrow> pystr \<Rightarrow> (pystr, nat) dict" where
  "extract_headings U text =
     (let md_counts = md_counts_of (splitlines text);
          html_counts = html_counts_of U text;
          combined = counter_update (counter_update [] md_counts) html_counts
      in map (\<lambda>i. (hkey i, dict_get combined (hkey i) 0)) [1..<7])"

section \<open>Keyword analyzer\<close>

record Keywords =
  target_keyword :: pystr
  target_count :: nat
  target_density_percent :: real
  related_keywords :: "pystr list"
  related_counts :: "(pystr, nat) dict"
  top_terms :: "(pystr \<times> nat) list"

record Flags =
  has_target :: bool
  density_low :: bool
  density_high :: bool

text \<open>
  \<open>\b\<close> between the character before a position and the one at it (\<open>None\<close> at either
  end of the text): exactly one of the two is a word character.
\<close>

definition word_opt :: "ucd \<Rightarrow> nat option \<Rightarrow> bool" where
  "word_opt U x = (case x of None \<Rightarrow> False | Some c \<Rightarrow> is_wordch U c)"

definition boundary :: "ucd \<Rightarrow> nat option \<Rightarrow> nat option \<Rightarrow> bool" where
  "boundary U l r \<longleftrightarrow> word_opt U l \<noteq> word_opt U r"

text \<open>
  \<open>\b\<close>, the escaped phrase, \<open>\b\<close>, matched without regard to case at the start of
  \<open>t\<close>, where \<open>prev\<close> is the character before \<open>t\<close>.
\<close>

definition phrase_at :: "ucd \<Rightarrow> pystr \<Rightarrow> nat option \<Rightarrow> pystr \<Rightarrow> bool" where
  "phrase_at U pat prev t \<longleftrightarrow>
     pat \<noteq> [] \<and> length pat \<le> length t \<and>
     boundary U prev (Some (hd t)) \<and>
     list_all2 (ch_ieq U) pat (take (length pat) t) \<and>
     boundary U (Some (last (take (length pat) t)))
       (case drop (length pat) t of [] \<Rightarrow> None | d # _ \<Rightarrow> Some d)"

text \<open>
  \<open>len(re.findall(...))\<close>: the matches are counted left to right and do not overlap;
  the search goes on where a match ended. The source searches for a non-empty phrase only.
\<close>

function count_phrase :: "ucd \<Rightarrow> pystr \<Rightarrow> nat option \<Rightarrow> pystr \<Rightarrow> nat" where
  "count_phrase U pat prev [] = 0"
| "count_phrase U pat prev (c # cs) =
     (if phrase_at U pat prev (c # cs)
      then 1 + count_phrase U pat (Some (last (take (length pat) (c # cs))))
                 (drop (length pat - 1) cs)
      else count_phrase U pat (Some c) cs)"
  by pat_completeness auto
termination
  by (relation "measure (\<lambda>(U, pat, prev, t). length t)") auto

definition keyword_metrics ::
  "ucd \<Rightarrow> pystr list \<Rightarrow> pystr \<Rightarrow> pystr \<Rightarrow> error + (Keywords \<times> Flags)" where
  "keyword_metrics U words target related =
     (let total_words = length words;
          freq = Counter words;
          target_clean = str_lower U (strip target);
          related_list =
            map (\<lambda>r. str_lower U (strip r)) (filter (\<lambda>r. strip r \<noteq> []) (split_on 44 related));
          target_phrase_count =
            (if target_clean \<noteq> [] then count_phrase U target_clean None (join_sp words) else 0)
      in case (if total_words > 0
               then (case truediv target_phrase_count total_words of
                       Inl e \<Rightarrow> Inl e
                     | Inr q \<Rightarrow> Inr (fmul q 100))
               else Inr 0) of
           Inl e \<Rightarrow> Inl e
         | Inr density \<Rightarrow>
             (let related_cnts =
                    fold (\<lambda>r d. dict_set r (dict_get freq r 0) d) related_list [];
                  top_words =
                    filter (\<lambda>(w, c). length w > 2 \<and> \<not> str_isdigit U w) (most_common 25 freq);
                  kw = \<lparr> target_keyword = target_clean,
                         target_count = target_phrase_count,
                         target_density_percent = py_round 2 density,
                         related_keywords = related_list,
                         related_counts = related_cnts,
                         top_terms = take 15 top_words \<rparr>;
                  flags = \<lparr> has_target = (target_clean \<noteq> [] \<and> target_phrase_count > 0),
                            density_low = (target_clean \<noteq> [] \<and> density < 1 / 2),
                            density_high = (target_clean \<noteq> [] \<and> density > 3) \<rparr>
              in Inr (kw, flags)))"

section \<open>Suggestion engine\<close>

definition msg_depth :: pystr where
  "msg_depth = S ''Add more depth. Aim for at least 300 to 800 words for most posts.''"

definition msg_trim :: pystr where
  "msg_trim = S ''Consider trimming or adding subheadings. Very long posts need strong structure.''"

definition msg_shorten :: pystr where
  "msg_shorten = S ''Shorten sentences. Average sentence length is a bit high.''"

definition msg_add_h1 :: pystr where
  "msg_add_h1 = S ''Add one clear H1 title (or a top-level heading) to define the page topic.''"

definition msg_one_h1 :: pystr where
  "msg_one_h1 = S ''Use only one H1. Convert extra H1s into H2s.''"

definition msg_add_h2 :: pystr where
  "msg_add_h2 = S ''Add H2 subheadings to break up sections and improve scan-ability.''"

definition msg_add_h3 :: pystr where
  "msg_add_h3 = S ''Add some H3 subheadings for details inside each section.''"

definition msg_include_kw :: pystr where
  "msg_include_kw = S ''Include your target keyword at least once, ideally in the first 100 words.''"

definition msg_density_low :: pystr where
  "msg_density_low = S ''Target keyword density looks low. Add it naturally 1 to 3 times.''"

definition msg_density_high :: pystr where
  "msg_density_high = S ''Target keyword density looks high. Reduce repetition and use synonyms.''"

definition msg_add_kw :: pystr where
  "msg_add_kw = S ''Add a target keyword to get keyword density and placement feedback.''"

definition msg_add_title :: pystr where
  "msg_add_title = S ''Add a meta title. Keep it clear and specific.''"

definition msg_title_short :: pystr where
  "msg_title_short = S ''Meta title may be short. Many titles perform well around 45 to 60 characters.''"

definition msg_title_long :: pystr where
  "msg_title_long = S ''Meta title may be long. Consider shortening to about 60 characters.''"

definition msg_title_kw :: pystr where
  "msg_title_kw = S ''Try including the target keyword in the meta title, if it fits naturally.''"

definition msg_add_desc :: pystr where
  "msg_add_desc = S ''Add a meta description. Summarize the value in 1 to 2 sentences.''"

definition msg_desc_short :: pystr where
  "msg_desc_short = S ''Meta description may be short. Many descriptions perform well around 120 to 160 characters.''"

definition msg_desc_long :: pystr where
  "msg_desc_long = S ''Meta description may be long. Consider trimming to about 160 characters.''"

definition msg_desc_kw :: pystr where
  "msg_desc_kw = S ''Try including the target keyword in the meta description, if it fits naturally.''"

text \<open>The apostrophe of this message is the right single quotation mark, U+2019.\<close>

definition msg_paragraphs :: pystr where
  "msg_paragraphs =
     S ''Break up long paragraphs. Aim for tighter blocks so it'' @ [8217] @ S ''s easier to read.''"

text \<open>
  The paragraph separator \<open>\n\s*\n\<close> at the start of \<open>t\<close>: a newline, then the white
  space that follows up to its last newline (\<open>\s*\<close> is greedy and gives characters back
  until a newline is next).
\<close>

definition para_delim :: "pystr \<Rightarrow> pystr option" where
  "para_delim t =
     (case t of
        [] \<Rightarrow> None
      | c # cs \<Rightarrow>
          let ws = takeWhile is_space cs
          in if c = 10 \<and> 10 \<in> set ws
             then Some (rev (takeWhile (\<lambda>x. x \<noteq> 10) (rev ws)) @ dropWhile is_space cs)
             else None)"

definition make_suggestions ::
  "ucd \<Rightarrow> pystr \<Rightarrow> pystr list \<Rightarrow> pystr list \<Rightarrow> (pystr, nat) dict \<Rightarrow> Keywords \<Rightarrow> Flags \<Rightarrow>
   pystr \<Rightarrow> pystr \<Rightarrow> error + pystr list" where
  "make_suggestions U text words sentences headings kw kw_flags meta_title meta_desc =
     (let word_cnt = length words;
          sentence_cnt = length sentences;
          s1 = (if word_cnt < 300 then [msg_depth]
                else if word_cnt > 2000 then [msg_trim] else [])
      in case (if sentence_cnt > 0
               then (case truediv word_cnt sentence_cnt of
                       Inl e \<Rightarrow> Inl e
                     | Inr avg_sentence_len \<Rightarrow>
                         Inr (if avg_sentence_len > 22 then s1 @ [msg_shorten] else s1))
               else Inr s1) of
           Inl e \<Rightarrow> Inl e
         | Inr s2 \<Rightarrow>
             (let s3 = s2 @ (if dict_get headings (S ''h1'') 0 = 0 then [msg_add_h1]
                             else if dict_get headings (S ''h1'') 0 > 1 then [msg_one_h1] else []);
                  s4 = s3 @ (if dict_get headings (S ''h2'') 0 = 0 then [msg_add_h2] else []);
                  s5 = s4 @ (if dict_get headings (S ''h3'') 0 = 0 \<and> word_cnt \<ge> 700
                             then [msg_add_h3] else []);
                  target = target_keyword kw;
                  s6 = s5 @ (if target \<noteq> []
                             then (if \<not> has_target kw_flags then [msg_include_kw] else []) @
                                  (if density_low kw_flags then [msg_density_low] else []) @
                                  (if density_high kw_flags then [msg_density_high] else [])
                             else [msg_add_kw]);
                  mt = strip meta_title;
                  md = strip meta_desc;
                  s7 = s6 @ (if mt = [] then [msg_add_title]
                             else (if length mt < 35 then [msg_title_short] else []) @
                                  (if length mt > 65 then [msg_title_long] else []) @
                                  (if target \<noteq> [] \<and> \<not> contains (str_lower U mt) target
                                   then [msg_title_kw] else []));
                  s8 = s7 @ (if md = [] then [msg_add_desc]
                             else (if length md < 90 then [msg_desc_short] else []) @
                                  (if length md > 170 then [msg_desc_long] else []) @
                                  (if target \<noteq> [] \<and> \<not> contains (str_lower U md) target
                                   then [msg_desc_kw] else []));
                  paras = map strip (filter (\<lambda>p. strip p \<noteq> []) (re_split para_delim text));
                  long_paras = filter (\<lambda>p. length (split_ws p) > 110) paras
              in Inr (s8 @ (if long_paras \<noteq> [] then [msg_paragraphs] else []))))"

section \<open>Analysis orchestrator\<close>

text \<open>
  The request: a field is \<open>None\<close> when the key is absent or its value is \<open>None\<close>;
  \<open>payload.get(k, "") or ""\<close> reads both as the empty string.
\<close>

record Payload =
  p_content :: "pystr option"
  p_target_keyword :: "pystr option"
  p_related_keywords :: "pystr option"
  p_meta_title :: "pystr option"
  p_meta_description :: "pystr option"

definition get_or_empty :: "pystr option \<Rightarrow> pystr" where
  "get_or_empty v = (case v of None \<Rightarrow> [] | Some s \<Rightarrow> s)"

record Stats =
  word_count :: nat
  character_count :: nat
  sentence_count :: nat
  paragraph_count :: nat

record Readability =
  flesch_score :: real
  level :: pystr
  avg_words_per_sentence :: real

record AnalysisResult =
  r_stats :: Stats
  r_keywords :: Keywords
  r_headings :: "(pystr, nat) dict"
  r_readability :: Readability
  r_suggestions :: "pystr list"

definition analyze :: "ucd \<Rightarrow> Payload \<Rightarrow> error + AnalysisResult" where
  "analyze U payload =
     (let raw_text = get_or_empty (p_content payload);
          target_kw = get_or_empty (p_target_keyword payload);
          related = get_or_empty (p_related_keywords payload);
          meta_title = get_or_empty (p_meta_title payload);
          meta_desc = get_or_empty (p_meta_description payload);
          text = normalize_text raw_text;
          words = tokenize_words text;
          sentences = split_sentences text;
          word_cnt = length words;
          char_cnt = length text;
          sentence_cnt = length sentences;
          paragraph_cnt = length (filter (\<lambda>p. strip p \<noteq> []) (re_split para_delim raw_text))
      in case truediv word_cnt (max 1 sentence_cnt) of
           Inl e \<Rightarrow> Inl e
         | Inr q \<Rightarrow>
             (case flesch_reading_ease U words sentences of
                Inl e \<Rightarrow> Inl e
              | Inr flesch \<Rightarrow>
                  (let rd = \<lparr> flesch_score = flesch,
                               level = score_band flesch,
                               avg_words_per_sentence = py_round 2 q \<rparr>;
                       heading_counts = extract_headings U raw_text
                   in case keyword_metrics U words target_kw related of
                        Inl e \<Rightarrow> Inl e
                      | Inr (kw, kw_flags) \<Rightarrow>
                          (case make_suggestions U raw_text words sentences heading_counts
                                  kw kw_flags meta_title meta_desc of
                             Inl e \<Rightarrow> Inl e
                           | Inr sugg \<Rightarrow>
                               Inr \<lparr> r_stats = \<lparr> word_count = word_cnt,
                                                 character_count = char_cnt,
                                                 sentence_count = sentence_cnt,
                                                 paragraph_count = paragraph_cnt \<rparr>,
                                     r_keywords = kw,
                                     r_headings = heading_counts,
                                     r_readability = rd,
                                     r_suggestions = sugg \<rparr>))))"

section \<open>Notions used to state the properties\<close>

text \<open>
  A string is white-space normal when its only white-space character is the space and no
  two spaces are adjacent.
\<close>

fun ws_norm :: "pystr \<Rightarrow> bool" where
  "ws_norm [] = True"
| "ws_norm [c] = (is_space c \<longrightarrow> c = 32)"
| "ws_norm (c # d # cs) = ((is_space c \<longrightarrow> c = 32 \<and> \<not> is_space d) \<and> ws_norm (d # cs))"

text \<open>The distinct elements of a list, in the order of their first occurrence.\<close>

definition first_seen :: "'a list \<Rightarrow> 'a list" where
  "first_seen xs = rev (remdups (rev xs))"

text \<open>
  The frequency ranking of the specification: every distinct token with the number of its
  occurrences, by decreasing count, tokens of equal count in first-encountered order.
\<close>

definition rank_by_frequency :: "pystr list \<Rightarrow> (pystr \<times> nat) list" where
  "rank_by_frequency words =
     sort_key (\<lambda>(w, k). - int k) (map (\<lambda>w. (w, count_list words w)) (first_seen words))"

definition keep_term :: "ucd \<Rightarrow> pystr \<times> nat \<Rightarrow> bool" where
  "keep_term U = (\<lambda>(w, c). length w > 2 \<and> \<not> str_isdigit U w)"

text \<open>
  The top terms as the specification words them: rank, keep the admissible entries, take
  the top 25 of those, report the first 15.
\<close>

definition top_terms_spec :: "ucd \<Rightarrow> pystr list \<Rightarrow> (pystr \<times> nat) list" where
  "top_terms_spec U words = take 15 (take 25 (filter (keep_term U) (rank_by_frequency words)))"

text \<open>The \<open>top_terms\<close> entry of the keyword metrics that \<open>keyword_metrics\<close> returns.\<close>

definition reported_top_terms ::
  "ucd \<Rightarrow> pystr list \<Rightarrow> pystr \<Rightarrow> pystr \<Rightarrow> (pystr \<times> nat) list option" where
  "reported_top_terms U words target related =
     (case keyword_metrics U words target related of
        Inl e \<Rightarrow> None
      | Inr (kw, flags) \<Rightarrow> Some (top_terms kw))"

text \<open>Twenty-five one-letter tokens \<open>a\<close> to \<open>y\<close>, then the token \<open>zzz\<close>.\<close>

definition many_short_words :: "pystr list" where
  "many_short_words = map (\<lambda>c. [c]) (S ''abcdefghijklmnopqrstuvwxy'') @ [S ''zzz'']"

text \<open>The number of lines of a text that are markdown headings of a level.\<close>

definition md_count :: "nat \<Rightarrow> pystr \<Rightarrow> nat" where
  "md_count i text = length (filter (\<lambda>line. md_level line = Some i) (splitlines text))"

text \<open>The document and the request of the end-to-end scenario.\<close>

definition scenario_content :: pystr where
  "scenario_content = S ''# My Title'' @ [10, 10] @ S ''This is a test. It has two sentences.''"

definition scenario_payload :: Payload where
  "scenario_payload =
     \<lparr> p_content = Some scenario_content,
       p_target_keyword = Some (S ''test''),
       p_related_keywords = Some (S ''sentence, example''),
       p_meta_title = Some [],
       p_meta_description = Some [] \<rparr>"

text \<open>A document of fifty words with no heading, and a request that holds only a document.\<close>

definition fifty_words :: pystr where
  "fifty_words =
     S (''a b c d e f g h i j k l m n o p q r s t u v w x y '' @
        ''a b c d e f g h i j k l m n o p q r s t u v w x y'')"

definition content_only :: "pystr \<Rightarrow> Payload" where
  "content_only c =
     \<lparr> p_content = Some c, p_target_keyword = Some [], p_related_keywords = Some [],
       p_meta_title = Some [], p_meta_description = Some [] \<rparr>"

section \<open>Strings: basic facts\<close>

lemma dropWhile_hd: "dropWhile P xs \<noteq> [] \<Longrightarrow> \<not> P (hd (dropWhile P xs))"
  by (simp add: hd_dropWhile)

lemma set_dropWhile_subset: "set (dropWhile P xs) \<subseteq> set xs"
  by (auto dest: set_dropWhileD)

lemma rstrip_prefix: "rstrip s @ rev (takeWhile is_space (rev s)) = s"
proof -
  have "rev (takeWhile is_space (rev s) @ dropWhile is_space (rev s)) = s" by simp
  then show ?thesis unfolding rstrip_def rev_append .
qed

lemma rstrip_last: "rstrip s \<noteq> [] \<Longrightarrow> \<not> is_space (last (rstrip s))"
proof -
  assume "rstrip s \<noteq> []"
  then have ne: "dropWhile is_space (rev s) \<noteq> []" by (simp add: rstrip_def)
  then have "\<not> is_space (hd (dropWhile is_space (rev s)))" by (rule dropWhile_hd)
  with ne show ?thesis by (simp add: rstrip_def last_rev)
qed

lemma rstrip_id: "s = [] \<or> \<not> is_space (last s) \<Longrightarrow> rstrip s = s"
proof (cases "s = []")
  case True then show ?thesis by (simp add: rstrip_def)
next
  case False
  assume "s = [] \<or> \<not> is_space (last s)"
  with False have "\<not> is_space (hd (rev s))" by (simp add: hd_rev)
  with False have "dropWhile is_space (rev s) = rev s" by (cases "rev s") auto
  then show ?thesis by (simp add: rstrip_def)
qed

lemma lstrip_id: "s = [] \<or> \<not> is_space (hd s) \<Longrightarrow> lstrip s = s"
  by (cases s) (auto simp: lstrip_def)

lemma lstrip_hd: "lstrip s \<noteq> [] \<Longrightarrow> \<not> is_space (hd (lstrip s))"
  unfolding lstrip_def by (rule dropWhile_hd)

lemma lstrip_last: "lstrip s \<noteq> [] \<Longrightarrow> last (lstrip s) = last s"
proof -
  assume ne: "lstrip s \<noteq> []"
  have "s = takeWhile is_space s @ lstrip s" by (simp add: lstrip_def)
  then have "last s = last (takeWhile is_space s @ lstrip s)" by simp
  also have "\<dots> = last (lstrip s)" using ne by simp
  finally show ?thesis by simp
qed

lemma strip_Nil: "strip [] = []"
  by (simp add: strip_def lstrip_def rstrip_def)

lemma strip_strip: "strip (strip s) = strip s"
proof (cases "strip s = []")
  case True
  with strip_Nil show ?thesis by simp
next
  case False
  then have ne: "lstrip (rstrip s) \<noteq> []" by (simp add: strip_def)
  then have rne: "rstrip s \<noteq> []" by (auto simp: lstrip_def)
  have "last (strip s) = last (rstrip s)" using ne by (simp add: strip_def lstrip_last)
  with rne have "\<not> is_space (last (strip s))" by (simp add: rstrip_last)
  then have "rstrip (strip s) = strip s" by (simp add: rstrip_id)
  moreover have "\<not> is_space (hd (strip s))" using ne by (simp add: strip_def lstrip_hd)
  ultimately show ?thesis by (simp add: strip_def[of "strip s"] lstrip_id)
qed

lemma set_strip: "set (strip s) \<subseteq> set s"
proof -
  have a: "set (lstrip (rstrip s)) \<subseteq> set (rstrip s)"
    unfolding lstrip_def by (rule set_dropWhile_subset)
  have "set (rev (dropWhile is_space (rev s))) \<subseteq> set s"
    using set_dropWhile_subset[of is_space "rev s"] by simp
  then have "set (rstrip s) \<subseteq> set s" by (simp add: rstrip_def)
  with a show ?thesis by (auto simp: strip_def)
qed

lemma replace_ch_id: "old \<notin> set s \<Longrightarrow> replace_ch old new s = s"
  by (induction s) (auto simp: replace_ch_def)

lemma replace_ch_set: "old \<noteq> new \<Longrightarrow> old \<notin> set (replace_ch old new s)"
  by (auto simp: replace_ch_def)

lemma replace_ch_keep: "x \<notin> set s \<Longrightarrow> x \<noteq> new \<Longrightarrow> x \<notin> set (replace_ch old new s)"
  by (auto simp: replace_ch_def)

section \<open>Floating point: the rounding\<close>

text \<open>
  \<open>ilog2\<close> is the binary exponent of a positive number, and \<open>fl\<close> moves a number by at
  most half a unit in the last of its 53 bits.
\<close>

lemma nbits_bounds: "0 < n \<Longrightarrow> 2 ^ (nbits n - 1) \<le> n \<and> n < 2 ^ nbits n"
proof (induction n rule: nbits.induct)
  case (1 n)
  show ?case
  proof (cases "n div 2 = 0")
    case True
    with 1 have "n = 1" by (simp add: div_eq_0_iff) 
    then show ?thesis by (simp add: nbits.simps)
  next
    case False
    then have p: "0 < n div 2" by simp
    with 1 have ih: "2 ^ (nbits (n div 2) - 1) \<le> n div 2" "n div 2 < 2 ^ nbits (n div 2)"
      by auto
    have nb: "nbits n = Suc (nbits (n div 2))" using 1 by (simp add: nbits.simps[of n])
    have pos: "0 < nbits (n div 2)" using p by (simp add: nbits.simps[of "n div 2"])
    have "2 ^ (nbits n - 1) = 2 * 2 ^ (nbits (n div 2) - 1)"
      using pos nb by (cases "nbits (n div 2)") auto
    also have "\<dots> \<le> 2 * (n div 2)" using ih(1) by simp
    also have "\<dots> \<le> n" by simp
    finally have a: "2 ^ (nbits n - 1) \<le> n" .
    have "n < 2 * (n div 2) + 2" by presburger
    also have "\<dots> \<le> 2 * 2 ^ nbits (n div 2)" using ih(2) by simp
    finally have "n < 2 ^ nbits n" using nb by simp
    with a show ?thesis by simp
  qed
qed

lemma pow2_nonneg: "pow2 (int k) = 2 ^ k"
  by (simp add: pow2_def)

lemma pow2_neg: "pow2 (- int k) = 1 / 2 ^ k"
  by (cases k) (simp_all add: pow2_def nat_add_distrib)

lemma ilog2_bracket:
  assumes "0 < q"
  shows "pow2 (ilog2 q) \<le> q \<and> q < pow2 (ilog2 q + 1)"
proof (cases "1 \<le> q")
  case True
  define n where "n = nat \<lfloor>q\<rfloor>"
  have n1: "0 < n" using True by (simp add: n_def)
  have lo: "real n \<le> q" and hi: "q < real n + 1"
    using True by (simp_all add: n_def)
  from nbits_bounds[OF n1] have b1: "2 ^ (nbits n - 1) \<le> n" and b2: "n < 2 ^ nbits n" by auto
  have kpos: "0 < nbits n" using n1 by (simp add: nbits.simps[of n])
  have e: "ilog2 q = int (nbits n - 1)" using True kpos by (simp add: ilog2_def n_def)
  have e1: "ilog2 q + 1 = int (nbits n)" using e kpos by simp
  have "real (2 ^ (nbits n - 1)) \<le> real n" using b1 by (rule of_nat_mono)
  then have "(2::real) ^ (nbits n - 1) \<le> real n" by simp
  then have A: "pow2 (ilog2 q) \<le> q" unfolding e pow2_nonneg using lo by linarith
  have "n + 1 \<le> 2 ^ nbits n" using b2 by simp
  then have "real (n + 1) \<le> real (2 ^ nbits n)" by (rule of_nat_mono)
  then have "real n + 1 \<le> 2 ^ nbits n" by simp
  then have B: "q < pow2 (ilog2 q + 1)" unfolding e1 pow2_nonneg using hi by linarith
  from A B show ?thesis by simp
next
  case False
  define r where "r = 1 / q"
  define m where "m = nat (\<lceil>r\<rceil> - 1)"
  have r1: "1 < r" using False assms by (simp add: r_def)
  then have c2: "2 \<le> \<lceil>r\<rceil>" by linarith
  then have m1: "0 < m" by (simp add: m_def)
  have mr: "real m = real_of_int \<lceil>r\<rceil> - 1" using c2 by (simp add: m_def)
  have lo: "real m < r" unfolding mr by linarith
  have hi: "r \<le> real m + 1" unfolding mr by linarith
  from nbits_bounds[OF m1] have b1: "2 ^ (nbits m - 1) \<le> m" and b2: "m < 2 ^ nbits m" by auto
  have kpos: "0 < nbits m" using m1 by (simp add: nbits.simps[of m])
  have e: "ilog2 q = - int (nbits m)" using False by (simp add: ilog2_def m_def r_def)
  have e1: "ilog2 q + 1 = - int (nbits m - 1)" using e kpos by simp
  have "m + 1 \<le> 2 ^ nbits m" using b2 by simp
  then have "real (m + 1) \<le> real (2 ^ nbits m)" by (rule of_nat_mono)
  then have "real m + 1 \<le> 2 ^ nbits m" by simp
  with hi have "r \<le> 2 ^ nbits m" by linarith
  then have "1 / q \<le> 2 ^ nbits m" by (simp add: r_def)
  then have "1 \<le> 2 ^ nbits m * q" using assms by (simp add: field_simps)
  then have A: "pow2 (ilog2 q) \<le> q" unfolding e pow2_neg by (simp add: field_simps)
  have "real (2 ^ (nbits m - 1)) \<le> real m" using b1 by (rule of_nat_mono)
  then have "(2::real) ^ (nbits m - 1) \<le> real m" by simp
  with lo have "2 ^ (nbits m - 1) < r" by linarith
  then have "2 ^ (nbits m - 1) < 1 / q" by (simp add: r_def)
  then have "2 ^ (nbits m - 1) * q < 1" using assms by (simp add: field_simps)
  then have B: "q < pow2 (ilog2 q + 1)" unfolding e1 pow2_neg by (simp add: field_simps)
  from A B show ?thesis by simp
qed


lemma round_half_even_near: "\<bar>of_int (round_half_even x) - x\<bar> \<le> 1 / 2"
proof -
  have "of_int \<lfloor>x\<rfloor> \<le> x" and "x < of_int \<lfloor>x\<rfloor> + 1" by linarith+
  then show ?thesis by (auto simp: round_half_even_def Let_def)
qed

lemma pow2_pos: "0 < pow2 k"
  by (simp add: pow2_def)

lemma fl_near: "\<bar>fl q - q\<bar> \<le> pow2 (ilog2 \<bar>q\<bar> - 52) / 2"
proof (cases "q = 0")
  case True
  then show ?thesis using pow2_pos[of "ilog2 \<bar>q\<bar> - 52"] by (simp add: fl_def)
next
  case False
  define u where "u = pow2 (ilog2 \<bar>q\<bar> - 52)"
  have u: "0 < u" unfolding u_def by (rule pow2_pos)
  have "fl q - q = (of_int (round_half_even (q / u)) - q / u) * u"
    using False u by (simp add: fl_def Let_def u_def[symmetric] field_simps)
  then have "\<bar>fl q - q\<bar> = \<bar>of_int (round_half_even (q / u)) - q / u\<bar> * u"
    using u by (simp add: abs_mult)
  also have "\<dots> \<le> (1 / 2) * u"
    using round_half_even_near[of "q / u"] u by (intro mult_right_mono) simp_all
  finally show ?thesis by (simp add: u_def)
qed

section \<open>The normalizer is idempotent\<close>

lemma sub_ws_hd:
  "cs \<noteq> [] \<Longrightarrow> \<not> is_space (hd cs) \<Longrightarrow> sub_ws cs \<noteq> [] \<and> hd (sub_ws cs) = hd cs"
  by (cases cs) auto

lemma ws_norm_Cons:
  "ws_norm (c # cs) =
     ((is_space c \<longrightarrow> c = 32 \<and> (cs \<noteq> [] \<longrightarrow> \<not> is_space (hd cs))) \<and> ws_norm cs)"
  by (cases cs) auto

lemma ws_norm_sub_ws: "ws_norm (sub_ws s)"
proof (induction s rule: sub_ws.induct)
  case 1
  show ?case by simp
next
  case (2 c cs)
  show ?case
  proof (cases "is_space c")
    case True
    let ?r = "dropWhile is_space cs"
    have "sub_ws ?r \<noteq> [] \<longrightarrow> \<not> is_space (hd (sub_ws ?r))"
    proof (cases "?r = []")
      case True
      show ?thesis unfolding True by simp
    next
      case False
      then have "\<not> is_space (hd ?r)" by (rule dropWhile_hd)
      with False show ?thesis using sub_ws_hd[of ?r] by simp
    qed
    with True 2 show ?thesis by (simp add: ws_norm_Cons)
  next
    case False
    with 2 show ?thesis by (simp add: ws_norm_Cons)
  qed
qed

lemma sub_ws_fixed: "ws_norm s \<Longrightarrow> sub_ws s = s"
proof (induction s rule: ws_norm.induct)
  case 1
  show ?case by simp
next
  case (2 c)
  then show ?case by auto
next
  case (3 c d cs)
  then show ?case by auto
qed

lemma ws_norm_append: "ws_norm (xs @ ys) \<Longrightarrow> ws_norm xs \<and> ws_norm ys"
proof (induction xs rule: ws_norm.induct)
  case 1
  then show ?case by simp
next
  case (2 c)
  then show ?case by (cases ys) auto
next
  case (3 c d cs)
  then show ?case by auto
qed

lemma ws_norm_strip: "ws_norm s \<Longrightarrow> ws_norm (strip s)"
proof -
  assume a: "ws_norm s"
  then have "ws_norm (rstrip s @ rev (takeWhile is_space (rev s)))"
    by (simp add: rstrip_prefix)
  then have r: "ws_norm (rstrip s)" using ws_norm_append by blast
  then have "ws_norm (takeWhile is_space (rstrip s) @ dropWhile is_space (rstrip s))" by simp
  then have "ws_norm (dropWhile is_space (rstrip s))" using ws_norm_append by blast
  then show ?thesis by (simp add: strip_def lstrip_def)
qed

lemma set_sub_ws: "set (sub_ws s) \<subseteq> insert 32 (set s)"
proof (induction s rule: sub_ws.induct)
  case 1
  show ?case by simp
next
  case (2 c cs)
  have d: "set (dropWhile is_space cs) \<subseteq> set cs" by (rule set_dropWhile_subset)
  show ?case
  proof (cases "is_space c")
    case True
    with 2 have "set (sub_ws (dropWhile is_space cs)) \<subseteq> insert 32 (set (dropWhile is_space cs))"
      by simp
    with d have "set (sub_ws (dropWhile is_space cs)) \<subseteq> insert 32 (set cs)" by blast
    with True show ?thesis by auto
  next
    case False
    with 2 have "set (sub_ws cs) \<subseteq> insert 32 (set cs)" by simp
    with False show ?thesis by auto
  qed
qed

text \<open>
  Claim C4. For every string \<open>s\<close>, normalizing the normalized string gives the normalized
  string: \<open>normalize_text\<close> is idempotent.
\<close>

theorem normalize_text_idempotent: "normalize_text (normalize_text s) = normalize_text s"
proof -
  define s1 where "s1 = replace_ch 8221 34 (replace_ch 8220 34 (replace_ch 8217 39 s))"
  define t where "t = strip (sub_ws s1)"
  have t: "normalize_text s = t" by (simp add: normalize_text_def s1_def t_def)
  have q1: "8217 \<notin> set s1"
    unfolding s1_def by (intro replace_ch_keep replace_ch_set) simp_all
  have q2: "8220 \<notin> set s1"
    unfolding s1_def by (intro replace_ch_keep replace_ch_set) simp_all
  have q3: "8221 \<notin> set s1"
    unfolding s1_def by (intro replace_ch_keep replace_ch_set) simp_all
  have sub: "set t \<subseteq> insert 32 (set s1)"
    unfolding t_def using set_strip[of "sub_ws s1"] set_sub_ws[of s1] by blast
  have n1: "8217 \<notin> set t" and n2: "8220 \<notin> set t" and n3: "8221 \<notin> set t"
    using sub q1 q2 q3 by auto
  have r: "replace_ch 8221 34 (replace_ch 8220 34 (replace_ch 8217 39 t)) = t"
    using n1 n2 n3 by (simp add: replace_ch_id)
  have "ws_norm t" unfolding t_def by (intro ws_norm_strip ws_norm_sub_ws)
  then have c: "sub_ws t = t" by (rule sub_ws_fixed)
  have st: "strip t = t" unfolding t_def by (rule strip_strip)
  show ?thesis unfolding t by (simp add: normalize_text_def r c st)
qed

section \<open>Evaluation on concrete inputs\<close>

text \<open>
  The equations that evaluate strings and floats on literals. With \<open>Let_def\<close> they are
  used under \<open>let_weak_cong\<close>, so that a bound value is computed before it is substituted.
\<close>

lemmas str_eval = S_def is_space_def strip_def lstrip_def rstrip_def ascii_lower_def ascii_ucd_def

lemmas fl_eval = fl_def ilog2_def pow2_def round_half_even_def nbits.simps Let_def fsub_def fmul_def
  truediv_def py_round_def

section \<open>The syllable estimator\<close>

text \<open>
  Claim C9. \<open>count_syllables\<close> returns 0 for the empty string and for every word whose
  lower-cased form has no letter \<open>a\<close> to \<open>z\<close>, 2 for \<open>simple\<close>, 1 for \<open>the\<close>, and at least 1
  for every word whose lower-cased form has such a letter.
\<close>

theorem count_syllables_spec:
  "count_syllables ascii_ucd [] = 0 \<and>
   (filter is_az (str_lower U word) = [] \<longrightarrow> count_syllables U word = 0) \<and>
   count_syllables ascii_ucd (S ''simple'') = 2 \<and>
   count_syllables ascii_ucd (S ''the'') = 1 \<and>
   (filter is_az (str_lower U word) \<noteq> [] \<longrightarrow> 1 \<le> count_syllables U word)"
proof (intro conjI impI)
  show "count_syllables ascii_ucd [] = 0"
    by (simp add: count_syllables_def ascii_ucd_def)
  show "count_syllables U word = 0" if "filter is_az (str_lower U word) = []"
    using that by (simp add: count_syllables_def)
  show "count_syllables ascii_ucd (S ''simple'') = 2"
    by (simp add: count_syllables_def str_eval is_az_def is_vowel_def endswith_def
        cong: let_weak_cong)
  show "count_syllables ascii_ucd (S ''the'') = 1"
    by (simp add: count_syllables_def str_eval is_az_def is_vowel_def endswith_def
        cong: let_weak_cong)
  show "1 \<le> count_syllables U word" if "filter is_az (str_lower U word) \<noteq> []"
    using that by (simp add: count_syllables_def Let_def)
qed

text \<open>The two general parts at a word without letters and at a word with letters.\<close>

theorem count_syllables_spec_witness:
  "filter is_az (str_lower ascii_ucd (S ''42'')) = [] \<and>
   count_syllables ascii_ucd (S ''42'') = 0 \<and>
   filter is_az (str_lower ascii_ucd (S ''Rhythm'')) \<noteq> [] \<and>
   1 \<le> count_syllables ascii_ucd (S ''Rhythm'')"
proof -
  have a: "filter is_az (str_lower ascii_ucd (S ''42'')) = []"
    by (simp add: str_eval is_az_def)
  have b: "filter is_az (str_lower ascii_ucd (S ''Rhythm'')) \<noteq> []"
    by (simp add: str_eval is_az_def)
  from a count_syllables_spec[of ascii_ucd "S ''42''"]
  have "count_syllables ascii_ucd (S ''42'') = 0" by blast
  moreover from b count_syllables_spec[of ascii_ucd "S ''Rhythm''"]
  have "1 \<le> count_syllables ascii_ucd (S ''Rhythm'')" by blast
  ultimately show ?thesis using a b by blast
qed

section \<open>The readability score\<close>

text \<open>
  Claim C5. \<open>flesch_reading_ease\<close> returns 0 when there is no token or no sentence.
  Otherwise it returns \<open>206.835 - 1.015 * (words / sentences) - 84.6 * (syllables / words)\<close>
  in float arithmetic, rounded to one decimal place and not clamped: one token of one
  syllable in one sentence scores 121.2, and the one token \<open>banana\<close> scores -48.
\<close>

theorem flesch_reading_ease_spec:
  "(words = [] \<or> sentences = [] \<longrightarrow> flesch_reading_ease U words sentences = Inr 0) \<and>
   (words \<noteq> [] \<and> sentences \<noteq> [] \<longrightarrow>
      flesch_reading_ease U words sentences =
        Inr (py_round 1
              (fsub (fsub (fl (206835 / 1000))
                          (fmul (fl (1015 / 1000))
                                (fl (real (length words) / real (length sentences)))))
                    (fmul (fl (846 / 10))
                          (fl (real (sum_list (map (count_syllables U) words)) /
                               real (length words))))))) \<and>
   flesch_reading_ease ascii_ucd [S ''a''] [S ''a''] = Inr (fl (1212 / 10)) \<and>
   100 < fl (1212 / 10) \<and>
   flesch_reading_ease ascii_ucd [S ''banana''] [S ''a''] = Inr (- 48)"
proof (intro conjI impI)
  show "flesch_reading_ease U words sentences = Inr 0" if "words = [] \<or> sentences = []"
    using that by (auto simp: flesch_reading_ease_def)
next
  assume a: "words \<noteq> [] \<and> sentences \<noteq> []"
  then have w: "max 1 (length words) = length words" and s: "max 1 (length sentences) = length sentences"
    by (auto simp: max_def Suc_le_eq)
  have nz: "length words \<noteq> 0" "length sentences \<noteq> 0" using a by auto
  show "flesch_reading_ease U words sentences =
        Inr (py_round 1
              (fsub (fsub (fl (206835 / 1000))
                          (fmul (fl (1015 / 1000))
                                (fl (real (length words) / real (length sentences)))))
                    (fmul (fl (846 / 10))
                          (fl (real (sum_list (map (count_syllables U) words)) /
                               real (length words))))))"
    using a nz unfolding flesch_reading_ease_def Let_def w s truediv_def by simp
next
  show "flesch_reading_ease ascii_ucd [S ''a''] [S ''a''] = Inr (fl (1212 / 10))"
    by (simp add: flesch_reading_ease_def fl_eval count_syllables_def str_eval is_az_def
        is_vowel_def endswith_def cong: let_weak_cong)
  show "100 < fl (1212 / 10)"
    by (simp add: fl_eval cong: let_weak_cong)
  show "flesch_reading_ease ascii_ucd [S ''banana''] [S ''a''] = Inr (- 48)"
    by (simp add: flesch_reading_ease_def fl_eval count_syllables_def str_eval is_az_def
        is_vowel_def endswith_def cong: let_weak_cong)
qed

text \<open>The score at an empty token list, an empty sentence list, and two tokens in a sentence.\<close>

theorem flesch_reading_ease_spec_witness:
  "flesch_reading_ease ascii_ucd [] [S ''a''] = Inr 0 \<and>
   flesch_reading_ease ascii_ucd [S ''a''] [] = Inr 0 \<and>
   flesch_reading_ease ascii_ucd [S ''cat'', S ''sat''] [S ''cat sat''] =
     Inr (py_round 1
           (fsub (fsub (fl (206835 / 1000)) (fmul (fl (1015 / 1000)) (fl (2 / 1))))
                 (fmul (fl (846 / 10)) (fl (2 / 2)))))"
proof -
  have "flesch_reading_ease ascii_ucd [] [S ''a''] = Inr 0"
    using flesch_reading_ease_spec[of "[]" "[S ''a'']" ascii_ucd] by blast
  moreover have "flesch_reading_ease ascii_ucd [S ''a''] [] = Inr 0"
    using flesch_reading_ease_spec[of "[S ''a'']" "[]" ascii_ucd] by blast
  moreover have "sum_list (map (count_syllables ascii_ucd) [S ''cat'', S ''sat'']) = 2"
    by (simp add: count_syllables_def str_eval is_az_def is_vowel_def endswith_def
        cong: let_weak_cong)
  then have "flesch_reading_ease ascii_ucd [S ''cat'', S ''sat''] [S ''cat sat''] =
     Inr (py_round 1
           (fsub (fsub (fl (206835 / 1000)) (fmul (fl (1015 / 1000)) (fl (2 / 1))))
                 (fmul (fl (846 / 10)) (fl (2 / 2)))))"
    using flesch_reading_ease_spec[of "[S ''cat'', S ''sat'']" "[S ''cat sat'']" ascii_ucd]
    by simp
  ultimately show ?thesis by blast
qed

section \<open>Dictionaries and counters: basic facts\<close>

lemma map_of_dict_set: "map_of (dict_set k v d) = (map_of d)(k \<mapsto> v)"
  by (induction d) auto

lemma dict_get_dict_set:
  "dict_get (dict_set k v d) k' x = (if k' = k then v else dict_get d k' x)"
  by (simp add: dict_get_def map_of_dict_set)

lemma keys_dict_set: "fst ` set (dict_set k v d) = insert k (fst ` set d)"
proof (induction d)
  case Nil
  show ?case by simp
next
  case (Cons p d)
  obtain k' v' where p: "p = (k', v')" by (cases p)
  show ?case
  proof (cases "k' = k")
    case True
    with p show ?thesis by auto
  next
    case False
    have "fst ` set ((k', v') # dict_set k v d) = insert k' (fst ` set (dict_set k v d))"
      by simp
    with Cons False p show ?thesis by auto
  qed
qed

lemma distinct_dict_set:
  "distinct (map fst d) \<Longrightarrow> distinct (map fst (dict_set k v d))"
proof (induction d)
  case Nil
  show ?case by simp
next
  case (Cons p d)
  obtain k' v' where p: "p = (k', v')" by (cases p)
  show ?case
  proof (cases "k' = k")
    case True
    with Cons p show ?thesis by simp
  next
    case False
    have "k' \<notin> fst ` set (dict_set k v d)"
      using Cons.prems False p by (simp add: keys_dict_set)
    with Cons p False show ?thesis by simp
  qed
qed

lemma dict_set_new: "k \<notin> fst ` set d \<Longrightarrow> dict_set k v d = d @ [(k, v)]"
  by (induction d) auto

lemma dict_set_old:
  "distinct ks \<Longrightarrow> k \<in> set ks \<Longrightarrow>
   dict_set k v (map (\<lambda>w. (w, f w)) ks) = map (\<lambda>w. (w, if w = k then v else f w)) ks"
proof (induction ks)
  case Nil
  then show ?case by simp
next
  case (Cons a ks)
  show ?case
  proof (cases "a = k")
    case True
    with Cons.prems have "k \<notin> set ks" by simp
    then have "map (\<lambda>w. (w, if w = k then v else f w)) ks = map (\<lambda>w. (w, f w)) ks"
      by (intro map_cong) auto
    with True show ?thesis by simp
  next
    case False
    with Cons show ?thesis by simp
  qed
qed

lemma dict_get_absent: "k \<notin> fst ` set d \<Longrightarrow> dict_get d k x = x"
  by (simp add: dict_get_def map_of_eq_None_iff[THEN iffD2])

lemma dict_get_counter_add:
  "dict_get (counter_add k n c) k' 0 = dict_get c k' 0 + (if k' = k then n else 0)"
  by (simp add: counter_add_def dict_get_dict_set)

lemma distinct_counter_add:
  "distinct (map fst c) \<Longrightarrow> distinct (map fst (counter_add k n c))"
  by (simp add: counter_add_def distinct_dict_set)

lemma dict_get_fold_count:
  "dict_get (fold (\<lambda>x c. counter_add x 1 c) xs c) k 0 = dict_get c k 0 + count_list xs k"
  by (induction xs arbitrary: c) (auto simp: dict_get_counter_add)

lemma Counter_get: "dict_get (Counter xs) k 0 = count_list xs k"
  unfolding Counter_def using dict_get_fold_count[of xs "[]" k] by (simp add: dict_get_def)

lemma Counter_snoc: "Counter (xs @ [x]) = counter_add x 1 (Counter xs)"
  by (simp add: Counter_def)

lemma first_seen_snoc:
  "first_seen (xs @ [x]) = (if x \<in> set xs then first_seen xs else first_seen xs @ [x])"
  by (simp add: first_seen_def)

lemma set_first_seen: "set (first_seen xs) = set xs"
  by (simp add: first_seen_def)

lemma distinct_first_seen: "distinct (first_seen xs)"
  by (simp add: first_seen_def)

lemma Counter_eq: "Counter xs = map (\<lambda>w. (w, count_list xs w)) (first_seen xs)"
proof (induction xs rule: rev_induct)
  case Nil
  show ?case by (simp add: Counter_def first_seen_def)
next
  case (snoc x xs)
  let ?c = "map (\<lambda>w. (w, count_list xs w)) (first_seen xs)"
  have step: "Counter (xs @ [x]) = dict_set x (count_list xs x + 1) ?c"
    using snoc by (simp add: Counter_snoc counter_add_def Counter_get[symmetric])
  show ?case
  proof (cases "x \<in> set xs")
    case True
    then have "x \<in> set (first_seen xs)" by (simp add: set_first_seen)
    then have "dict_set x (count_list xs x + 1) ?c =
        map (\<lambda>w. (w, if w = x then count_list xs x + 1 else count_list xs w)) (first_seen xs)"
      using distinct_first_seen by (rule dict_set_old[rotated])
    also have "\<dots> = map (\<lambda>w. (w, count_list (xs @ [x]) w)) (first_seen xs)"
      by (intro map_cong) auto
    finally show ?thesis using True step by (simp add: first_seen_snoc)
  next
    case False
    then have "x \<notin> fst ` set ?c" by (auto simp: set_first_seen)
    then have "dict_set x (count_list xs x + 1) ?c = ?c @ [(x, count_list xs x + 1)]"
      by (rule dict_set_new)
    moreover have "count_list xs x = 0" using False by (simp add: count_list_0_iff)
    moreover have "map (\<lambda>w. (w, count_list (xs @ [x]) w)) (first_seen xs) = ?c"
      using False by (intro map_cong) (auto simp: set_first_seen)
    ultimately show ?thesis using False step by (simp add: first_seen_snoc)
  qed
qed

section \<open>Keyword metrics\<close>

lemma keyword_metrics_fields:
  "\<exists>kw flags. keyword_metrics U words target related = Inr (kw, flags) \<and>
     related_keywords kw =
       map (\<lambda>r. str_lower U (strip r)) (filter (\<lambda>r. strip r \<noteq> []) (split_on 44 related)) \<and>
     related_counts kw =
       fold (\<lambda>r d. dict_set r (dict_get (Counter words) r 0) d)
         (map (\<lambda>r. str_lower U (strip r)) (filter (\<lambda>r. strip r \<noteq> []) (split_on 44 related))) [] \<and>
     top_terms kw =
       take 15 (filter (\<lambda>(w, c). length w > 2 \<and> \<not> str_isdigit U w)
                  (most_common 25 (Counter words)))"
  by (simp add: keyword_metrics_def Let_def truediv_def)

lemma map_of_fold_dict_set:
  "map_of (fold (\<lambda>r d. dict_set r (f r) d) rs d) k =
     (if k \<in> set rs then Some (f k) else map_of d k)"
  by (induction rs arbitrary: d) (auto simp: map_of_dict_set)

lemma keys_fold_dict_set:
  "fst ` set (fold (\<lambda>r d. dict_set r (f r) d) rs d) = set rs \<union> fst ` set d"
  by (induction rs arbitrary: d) (auto simp: keys_dict_set)

lemma tokens_category: 
  "tokenize_words (S ''category cat cat'') = [S ''category'', S ''cat'', S ''cat'']"
  by (simp add: tokenize_words_def S_def is_word_re_def ascii_lower_def)

lemma related_cat:
  "map (\<lambda>r. str_lower ascii_ucd (strip r)) (filter (\<lambda>r. strip r \<noteq> []) (split_on 44 (S ''cat'')))
     = [S ''cat'']"
  by (simp add: str_eval)

lemma related_terms_example:
  "map (\<lambda>r. str_lower ascii_ucd (strip r))
       (filter (\<lambda>r. strip r \<noteq> []) (split_on 44 (S '' Cat , dog,,bird'')))
     = [S ''cat'', S ''dog'', S ''bird'']"
  by (simp add: str_eval)

lemma tokens_example:
  "tokenize_words (S ''category cat cat dog'') = [S ''category'', S ''cat'', S ''cat'', S ''dog'']"
  by (simp add: tokenize_words_def S_def is_word_re_def ascii_lower_def)

lemma split_cat_dog: "split_on 44 (S ''cat,dog'') = [S ''cat'', S ''dog'']"
  by (simp add: S_def)

lemma clean_cat_dog:
  "strip (S ''cat'') = S ''cat''" "strip (S ''dog'') = S ''dog''"
  "str_lower ascii_ucd (S ''cat'') = S ''cat''" "str_lower ascii_ucd (S ''dog'') = S ''dog''"
  by (simp_all add: str_eval)

text \<open>
  Claim C7. For every token sequence and related-keywords string, the related terms are
  the comma-separated pieces of the string that are not blank, each stripped and
  lower-cased; they are the keys of \<open>related_counts\<close>, and the count of each is the number
  of tokens equal to it: a lookup of the whole term, with no phrase or boundary matching.
  For the related term \<open>cat\<close> and the content \<open>category cat cat\<close> the count is 2; for the
  related string \<open> Cat , dog,,bird\<close> and the content \<open>category cat cat dog\<close> the counts
  are \<open>cat: 2\<close>, \<open>dog: 1\<close>, \<open>bird: 0\<close>.
\<close>

theorem related_counts_exact:
  "(\<exists>kw flags. keyword_metrics U words target related = Inr (kw, flags) \<and>
      related_keywords kw =
        map (\<lambda>r. str_lower U (strip r)) (filter (\<lambda>r. strip r \<noteq> []) (split_on 44 related)) \<and>
      fst ` set (related_counts kw) = set (related_keywords kw) \<and>
      (\<forall>r \<in> set (split_on 44 related). strip r \<noteq> [] \<longrightarrow>
          map_of (related_counts kw) (str_lower U (strip r)) =
            Some (count_list words (str_lower U (strip r))))) \<and>
   (\<exists>kw flags. keyword_metrics ascii_ucd (tokenize_words (S ''category cat cat'')) [] (S ''cat'')
        = Inr (kw, flags) \<and>
      related_counts kw = [(S ''cat'', 2)]) \<and>
   (\<exists>kw flags. keyword_metrics ascii_ucd (tokenize_words (S ''category cat cat dog'')) []
          (S '' Cat , dog,,bird'') = Inr (kw, flags) \<and>
      related_keywords kw = [S ''cat'', S ''dog'', S ''bird''] \<and>
      related_counts kw = [(S ''cat'', 2), (S ''dog'', 1), (S ''bird'', 0)])"
proof (intro conjI)
  let ?rl = "map (\<lambda>r. str_lower U (strip r)) (filter (\<lambda>r. strip r \<noteq> []) (split_on 44 related))"
  obtain kw flags where k: "keyword_metrics U words target related = Inr (kw, flags)"
    and rk: "related_keywords kw = ?rl"
    and rc: "related_counts kw =
       fold (\<lambda>r d. dict_set r (dict_get (Counter words) r 0) d) ?rl []"
    using keyword_metrics_fields[of U words target related] by blast
  have rc': "related_counts kw =
      fold (\<lambda>r d. dict_set r (count_list words r) d) (related_keywords kw) []"
    by (simp add: rc rk Counter_get)
  have ks: "fst ` set (related_counts kw) = set (related_keywords kw)"
    unfolding rc' by (simp add: keys_fold_dict_set)
  have all: "\<forall>r \<in> set (related_keywords kw).
      map_of (related_counts kw) r = Some (count_list words r)"
    unfolding rc' by (simp add: map_of_fold_dict_set)
  have "\<forall>r \<in> set (split_on 44 related). strip r \<noteq> [] \<longrightarrow>
          map_of (related_counts kw) (str_lower U (strip r)) =
            Some (count_list words (str_lower U (strip r)))"
  proof (intro ballI impI)
    fix r assume "r \<in> set (split_on 44 related)" and "strip r \<noteq> []"
    then have "str_lower U (strip r) \<in> set (related_keywords kw)"
      unfolding rk by auto
    with all show "map_of (related_counts kw) (str_lower U (strip r)) =
            Some (count_list words (str_lower U (strip r)))" by blast
  qed
  with k rk ks show "\<exists>kw flags. keyword_metrics U words target related = Inr (kw, flags) \<and>
      related_keywords kw = ?rl \<and>
      fst ` set (related_counts kw) = set (related_keywords kw) \<and>
      (\<forall>r \<in> set (split_on 44 related). strip r \<noteq> [] \<longrightarrow>
          map_of (related_counts kw) (str_lower U (strip r)) =
            Some (count_list words (str_lower U (strip r))))"
    by blast
next
  let ?ws = "tokenize_words (S ''category cat cat'')"
  obtain kw flags where k: "keyword_metrics ascii_ucd ?ws [] (S ''cat'') = Inr (kw, flags)"
    and rc: "related_counts kw =
       fold (\<lambda>r d. dict_set r (dict_get (Counter ?ws) r 0) d)
         (map (\<lambda>r. str_lower ascii_ucd (strip r))
            (filter (\<lambda>r. strip r \<noteq> []) (split_on 44 (S ''cat'')))) []"
    using keyword_metrics_fields[of ascii_ucd ?ws "[]" "S ''cat''"] by blast
  have "related_counts kw = [(S ''cat'', 2)]"
    unfolding rc related_cat Counter_get tokens_category by (simp add: S_def)
  with k show "\<exists>kw flags. keyword_metrics ascii_ucd ?ws [] (S ''cat'') = Inr (kw, flags) \<and>
      related_counts kw = [(S ''cat'', 2)]" by blast
next
  let ?ws = "tokenize_words (S ''category cat cat dog'')"
  let ?rel = "S '' Cat , dog,,bird''"
  obtain kw flags where k: "keyword_metrics ascii_ucd ?ws [] ?rel = Inr (kw, flags)"
    and rk: "related_keywords kw =
       map (\<lambda>r. str_lower ascii_ucd (strip r)) (filter (\<lambda>r. strip r \<noteq> []) (split_on 44 ?rel))"
    and rc: "related_counts kw =
       fold (\<lambda>r d. dict_set r (dict_get (Counter ?ws) r 0) d)
         (map (\<lambda>r. str_lower ascii_ucd (strip r))
            (filter (\<lambda>r. strip r \<noteq> []) (split_on 44 ?rel))) []"
    using keyword_metrics_fields[of ascii_ucd ?ws "[]" ?rel] by blast
  have a: "related_keywords kw = [S ''cat'', S ''dog'', S ''bird'']"
    unfolding rk by (rule related_terms_example)
  have b: "related_counts kw = [(S ''cat'', 2), (S ''dog'', 1), (S ''bird'', 0)]"
    unfolding rc related_terms_example Counter_get tokens_example by (simp add: S_def)
  from k a b show "\<exists>kw flags. keyword_metrics ascii_ucd ?ws [] ?rel = Inr (kw, flags) \<and>
      related_keywords kw = [S ''cat'', S ''dog'', S ''bird''] \<and>
      related_counts kw = [(S ''cat'', 2), (S ''dog'', 1), (S ''bird'', 0)]" by blast
qed

text \<open>
  The general part at the related string \<open>cat,dog\<close> and the tokens \<open>cat\<close>, \<open>dog\<close>, \<open>cat\<close>:
  both pieces of the string are terms, with the counts 2 and 1.
\<close>

theorem related_counts_exact_witness:
  "\<exists>kw flags. keyword_metrics ascii_ucd [S ''cat'', S ''dog'', S ''cat''] [] (S ''cat,dog'')
       = Inr (kw, flags) \<and>
     related_keywords kw = [S ''cat'', S ''dog''] \<and>
     S ''cat'' \<in> set (split_on 44 (S ''cat,dog'')) \<and> strip (S ''cat'') \<noteq> [] \<and>
     map_of (related_counts kw) (S ''cat'') = Some 2 \<and>
     S ''dog'' \<in> set (split_on 44 (S ''cat,dog'')) \<and> strip (S ''dog'') \<noteq> [] \<and>
     map_of (related_counts kw) (S ''dog'') = Some 1"
proof -
  let ?ws = "[S ''cat'', S ''dog'', S ''cat'']"
  obtain kw flags where k: "keyword_metrics ascii_ucd ?ws [] (S ''cat,dog'') = Inr (kw, flags)"
    and rk: "related_keywords kw =
        map (\<lambda>r. str_lower ascii_ucd (strip r))
          (filter (\<lambda>r. strip r \<noteq> []) (split_on 44 (S ''cat,dog'')))"
    and all: "\<forall>r \<in> set (split_on 44 (S ''cat,dog'')). strip r \<noteq> [] \<longrightarrow>
          map_of (related_counts kw) (str_lower ascii_ucd (strip r)) =
            Some (count_list ?ws (str_lower ascii_ucd (strip r)))"
    using related_counts_exact[of ascii_ucd ?ws "[]" "S ''cat,dog''"] by blast
  have ne: "S ''cat'' \<noteq> []" "S ''dog'' \<noteq> []" by (simp_all add: S_def)
  have m: "S ''cat'' \<in> set (split_on 44 (S ''cat,dog''))"
    "S ''dog'' \<in> set (split_on 44 (S ''cat,dog''))"
    unfolding split_cat_dog by simp_all
  have s: "strip (S ''cat'') \<noteq> []" "strip (S ''dog'') \<noteq> []"
    unfolding clean_cat_dog by (rule ne)+
  have r: "related_keywords kw = [S ''cat'', S ''dog'']"
    unfolding rk split_cat_dog using ne by (simp add: clean_cat_dog)
  have c: "count_list ?ws (S ''cat'') = 2" "count_list ?ws (S ''dog'') = 1"
    by (simp_all add: S_def)
  from all m(1) s(1) have "map_of (related_counts kw) (str_lower ascii_ucd (strip (S ''cat''))) =
      Some (count_list ?ws (str_lower ascii_ucd (strip (S ''cat''))))" by blast
  then have c1: "map_of (related_counts kw) (S ''cat'') = Some 2"
    unfolding clean_cat_dog c .
  from all m(2) s(2) have "map_of (related_counts kw) (str_lower ascii_ucd (strip (S ''dog''))) =
      Some (count_list ?ws (str_lower ascii_ucd (strip (S ''dog''))))" by blast
  then have c2: "map_of (related_counts kw) (S ''dog'') = Some 1"
    unfolding clean_cat_dog c .
  from k r m s c1 c2 show ?thesis by blast
qed

lemma reported_top_terms_eq:
  "reported_top_terms U words target related =
     Some (take 15 (filter (keep_term U) (take 25 (rank_by_frequency words))))"
proof -
  obtain kw flags where k: "keyword_metrics U words target related = Inr (kw, flags)"
    and tt: "top_terms kw =
       take 15 (filter (\<lambda>(w, c). length w > 2 \<and> \<not> str_isdigit U w)
                  (most_common 25 (Counter words)))"
    using keyword_metrics_fields[of U words target related] by blast
  have "most_common 25 (Counter words) = take 25 (rank_by_frequency words)"
    by (simp add: most_common_def rank_by_frequency_def Counter_eq)
  with tt have "top_terms kw = take 15 (filter (keep_term U) (take 25 (rank_by_frequency words)))"
    by (simp add: keep_term_def)
  with k show ?thesis by (simp add: reported_top_terms_def)
qed

lemma many_short_words_expand:
  "many_short_words = [[97],[98],[99],[100],[101],[102],[103],[104],[105],[106],[107],[108],
     [109],[110],[111],[112],[113],[114],[115],[116],[117],[118],[119],[120],[121],[122,122,122]]"
  by (simp add: many_short_words_def S_def)

lemma rank_many_short_words:
  "rank_by_frequency many_short_words = map (\<lambda>w. (w, 1)) many_short_words"
  unfolding many_short_words_expand
  by (simp add: rank_by_frequency_def first_seen_def)

lemma keep_many_short_words:
  "filter (keep_term ascii_ucd) (rank_by_frequency many_short_words) = [(S ''zzz'', 1)]"
  unfolding rank_many_short_words unfolding many_short_words_expand
  by (simp add: keep_term_def str_isdigit_def ascii_ucd_def S_def)

lemma keep_many_short_words_25:
  "filter (keep_term ascii_ucd) (take 25 (rank_by_frequency many_short_words)) = []"
  unfolding rank_many_short_words unfolding many_short_words_expand
  by (simp add: keep_term_def str_isdigit_def ascii_ucd_def S_def)

text \<open>
  Claim C2, as the specification states it, fails: with 25 one-letter tokens before the
  token \<open>zzz\<close>, every token occurring once, the program reports no top term, while the
  ranking of the specification reports \<open>zzz\<close>.
\<close>

theorem top_terms_spec_counterexample:
  "reported_top_terms ascii_ucd many_short_words [] [] = Some [] \<and>
   top_terms_spec ascii_ucd many_short_words = [(S ''zzz'', 1)] \<and>
   reported_top_terms ascii_ucd many_short_words [] []
     \<noteq> Some (top_terms_spec ascii_ucd many_short_words)"
proof -
  have a: "reported_top_terms ascii_ucd many_short_words [] [] = Some []"
    by (simp add: reported_top_terms_eq keep_many_short_words_25)
  have b: "top_terms_spec ascii_ucd many_short_words = [(S ''zzz'', 1)]"
    by (simp add: top_terms_spec_def keep_many_short_words)
  from a b show ?thesis by simp
qed

text \<open>
  Claim C2, amended. For every token sequence, \<open>top_terms\<close> is obtained so: rank all
  tokens by frequency, ties in first-encountered order; take the top 25 entries; keep
  those whose term is longer than 2 and not purely numeric; report the first 15 of them.
\<close>

theorem top_terms_amended:
  "reported_top_terms U words target related =
     Some (take 15 (filter (keep_term U) (take 25 (rank_by_frequency words))))"
  by (rule reported_top_terms_eq)

text \<open>The amended statement at the 26 tokens above.\<close>

theorem top_terms_amended_witness:
  "reported_top_terms ascii_ucd many_short_words [] [] = Some []"
  using top_terms_amended[of ascii_ucd many_short_words "[]" "[]"]
  by (simp add: keep_many_short_words_25)

section \<open>The heading extractor\<close>

lemma hkey_inj: "hkey i = hkey j \<longleftrightarrow> i = j"
  by (simp add: hkey_def)

lemma dict_get_Nil: "dict_get [] k x = x"
  by (simp add: dict_get_def)

lemma dict_get_Cons:
  "dict_get ((k', v) # d) k x = (if k = k' then v else dict_get d k x)"
  by (simp add: dict_get_def)

lemma dict_get_counter_update:
  "distinct (map fst d) \<Longrightarrow>
   dict_get (counter_update c d) k 0 = dict_get c k 0 + dict_get d k 0"
proof (induction d arbitrary: c)
  case Nil
  show ?case by (simp add: counter_update_def dict_get_def)
next
  case (Cons p d)
  obtain k' n where p: "p = (k', n)" by (cases p)
  from Cons.prems p have dd: "distinct (map fst d)" and nk: "k' \<notin> fst ` set d" by auto
  have "counter_update c (p # d) = counter_update (counter_add k' n c) d"
    by (simp add: counter_update_def p)
  then have "dict_get (counter_update c (p # d)) k 0 =
      dict_get (counter_add k' n c) k 0 + dict_get d k 0"
    using Cons.IH[OF dd] by simp
  also have "\<dots> = dict_get c k 0 + (if k = k' then n else 0) + dict_get d k 0"
    by (simp add: dict_get_counter_add)
  also have "\<dots> = dict_get c k 0 + dict_get (p # d) k 0"
    using nk by (simp add: p dict_get_Cons dict_get_absent)
  finally show ?case .
qed

lemma md_fold_distinct:
  "distinct (map fst c) \<Longrightarrow>
   distinct (map fst (fold (\<lambda>line md_counts.
             case md_level line of
               None \<Rightarrow> md_counts
             | Some lv \<Rightarrow> counter_add (hkey lv) 1 md_counts) lines c))"
  by (induction lines arbitrary: c) (auto simp: distinct_counter_add split: option.splits)

lemma md_fold_get:
  "dict_get (fold (\<lambda>line md_counts.
             case md_level line of
               None \<Rightarrow> md_counts
             | Some lv \<Rightarrow> counter_add (hkey lv) 1 md_counts) lines c) (hkey i) 0 =
   dict_get c (hkey i) 0 + length (filter (\<lambda>line. md_level line = Some i) lines)"
  by (induction lines arbitrary: c) (auto simp: dict_get_counter_add hkey_inj split: option.splits)

lemma md_counts_get: "dict_get (md_counts_of (splitlines text)) (hkey i) 0 = md_count i text"
  unfolding md_counts_of_def md_count_def using md_fold_get[of "splitlines text" "[]" i]
  by (simp add: dict_get_def)

lemma md_counts_distinct: "distinct (map fst (md_counts_of lines))"
  unfolding md_counts_of_def by (rule md_fold_distinct) simp

lemma upt_1_7: "[1..<7] = [1, 2, 3, 4, 5, 6::nat]"
  by (simp add: upt_rec)

lemma html_counts_expand:
  "html_counts_of U text =
     [(hkey 1, count_tag U 1 text), (hkey 2, count_tag U 2 text), (hkey 3, count_tag U 3 text),
      (hkey 4, count_tag U 4 text), (hkey 5, count_tag U 5 text), (hkey 6, count_tag U 6 text)]"
  unfolding html_counts_of_def upt_1_7 by (simp add: hkey_def)

lemma html_counts_distinct: "distinct (map fst (html_counts_of U text))"
  by (simp add: html_counts_expand hkey_def)

lemma combined_get:
  "dict_get (counter_update (counter_update [] (md_counts_of (splitlines text)))
       (html_counts_of U text)) (hkey i) 0 =
   md_count i text + dict_get (html_counts_of U text) (hkey i) 0"
  by (simp add: dict_get_counter_update html_counts_distinct md_counts_distinct md_counts_get
      dict_get_Nil)

lemma extract_headings_eq:
  "extract_headings U text =
     [(S ''h1'', md_count 1 text + count_tag U 1 text),
      (S ''h2'', md_count 2 text + count_tag U 2 text),
      (S ''h3'', md_count 3 text + count_tag U 3 text),
      (S ''h4'', md_count 4 text + count_tag U 4 text),
      (S ''h5'', md_count 5 text + count_tag U 5 text),
      (S ''h6'', md_count 6 text + count_tag U 6 text)]"
proof -
  have k: "hkey 1 = S ''h1''" "hkey 2 = S ''h2''" "hkey 3 = S ''h3''"
    "hkey 4 = S ''h4''" "hkey 5 = S ''h5''" "hkey 6 = S ''h6''"
    by (simp_all add: hkey_def S_def)
  have h: "dict_get (html_counts_of U text) (S ''h1'') 0 = count_tag U 1 text"
    "dict_get (html_counts_of U text) (S ''h2'') 0 = count_tag U 2 text"
    "dict_get (html_counts_of U text) (S ''h3'') 0 = count_tag U 3 text"
    "dict_get (html_counts_of U text) (S ''h4'') 0 = count_tag U 4 text"
    "dict_get (html_counts_of U text) (S ''h5'') 0 = count_tag U 5 text"
    "dict_get (html_counts_of U text) (S ''h6'') 0 = count_tag U 6 text"
    by (simp_all add: html_counts_expand dict_get_Cons hkey_def S_def)
  have "extract_headings U text =
     map (\<lambda>i. (hkey i, md_count i text + dict_get (html_counts_of U text) (hkey i) 0))
       [1, 2, 3, 4, 5, 6]"
    unfolding extract_headings_def Let_def upt_1_7 combined_get ..
  then show ?thesis unfolding list.map k h .
qed

lemmas heading_eval = md_count_def md_level_def is_linebreak_def is_wordch_def

text \<open>
  Claim C6. For every string, \<open>extract_headings\<close> returns the six keys \<open>h1\<close> to \<open>h6\<close>, each
  with the number of markdown heading lines of that level plus the number of opening tags
  of that level. \<open># Title\<close>, newline, \<open>## Sub\<close> gives one \<open>h1\<close> and one \<open>h2\<close>;
  \<open><h2>X</h2><h2>Y</h2>\<close> gives two \<open>h2\<close>; a markdown \<open>h2\<close> and a tag \<open>h2\<close> in one document
  give two \<open>h2\<close>.
\<close>

theorem extract_headings_spec:
  "extract_headings U text =
     [(S ''h1'', md_count 1 text + count_tag U 1 text),
      (S ''h2'', md_count 2 text + count_tag U 2 text),
      (S ''h3'', md_count 3 text + count_tag U 3 text),
      (S ''h4'', md_count 4 text + count_tag U 4 text),
      (S ''h5'', md_count 5 text + count_tag U 5 text),
      (S ''h6'', md_count 6 text + count_tag U 6 text)] \<and>
   extract_headings ascii_ucd (S ''# Title'' @ [10] @ S ''## Sub'') =
     [(S ''h1'', 1), (S ''h2'', 1), (S ''h3'', 0), (S ''h4'', 0), (S ''h5'', 0), (S ''h6'', 0)] \<and>
   extract_headings ascii_ucd (S ''<h2>X</h2><h2>Y</h2>'') =
     [(S ''h1'', 0), (S ''h2'', 2), (S ''h3'', 0), (S ''h4'', 0), (S ''h5'', 0), (S ''h6'', 0)] \<and>
   extract_headings ascii_ucd (S ''## A'' @ [10] @ S ''<h2>B</h2>'') =
     [(S ''h1'', 0), (S ''h2'', 2), (S ''h3'', 0), (S ''h4'', 0), (S ''h5'', 0), (S ''h6'', 0)]"
proof (intro conjI)
  show "extract_headings U text =
     [(S ''h1'', md_count 1 text + count_tag U 1 text),
      (S ''h2'', md_count 2 text + count_tag U 2 text),
      (S ''h3'', md_count 3 text + count_tag U 3 text),
      (S ''h4'', md_count 4 text + count_tag U 4 text),
      (S ''h5'', md_count 5 text + count_tag U 5 text),
      (S ''h6'', md_count 6 text + count_tag U 6 text)]"
    by (rule extract_headings_eq)
  show "extract_headings ascii_ucd (S ''# Title'' @ [10] @ S ''## Sub'') =
     [(S ''h1'', 1), (S ''h2'', 1), (S ''h3'', 0), (S ''h4'', 0), (S ''h5'', 0), (S ''h6'', 0)]"
    unfolding extract_headings_eq by (simp add: heading_eval str_eval cong: let_weak_cong)
  show "extract_headings ascii_ucd (S ''<h2>X</h2><h2>Y</h2>'') =
     [(S ''h1'', 0), (S ''h2'', 2), (S ''h3'', 0), (S ''h4'', 0), (S ''h5'', 0), (S ''h6'', 0)]"
    unfolding extract_headings_eq by (simp add: heading_eval str_eval cong: let_weak_cong)
  show "extract_headings ascii_ucd (S ''## A'' @ [10] @ S ''<h2>B</h2>'') =
     [(S ''h1'', 0), (S ''h2'', 2), (S ''h3'', 0), (S ''h4'', 0), (S ''h5'', 0), (S ''h6'', 0)]"
    unfolding extract_headings_eq by (simp add: heading_eval str_eval cong: let_weak_cong)
qed

text \<open>The general part at a document with a markdown \<open>h3\<close> and an upper-case \<open>H3\<close> tag.\<close>

theorem extract_headings_spec_witness:
  "map fst (extract_headings ascii_ucd (S ''### Deep'' @ [10] @ S ''<H3 class=x>'')) =
     [S ''h1'', S ''h2'', S ''h3'', S ''h4'', S ''h5'', S ''h6''] \<and>
   dict_get (extract_headings ascii_ucd (S ''### Deep'' @ [10] @ S ''<H3 class=x>'')) (S ''h3'') 0 = 2"
proof -
  define t where "t = S ''### Deep'' @ [10] @ S ''<H3 class=x>''"
  have e: "extract_headings ascii_ucd t =
     [(S ''h1'', md_count 1 t + count_tag ascii_ucd 1 t),
      (S ''h2'', md_count 2 t + count_tag ascii_ucd 2 t),
      (S ''h3'', md_count 3 t + count_tag ascii_ucd 3 t),
      (S ''h4'', md_count 4 t + count_tag ascii_ucd 4 t),
      (S ''h5'', md_count 5 t + count_tag ascii_ucd 5 t),
      (S ''h6'', md_count 6 t + count_tag ascii_ucd 6 t)]"
    using extract_headings_spec[of ascii_ucd t] by blast
  have m: "md_count 3 t = 1"
    unfolding t_def by (simp add: heading_eval str_eval cong: let_weak_cong)
  have c: "count_tag ascii_ucd 3 t = 1"
    unfolding t_def by (simp add: heading_eval str_eval)
  have k: "S ''h3'' \<noteq> S ''h1''" "S ''h3'' \<noteq> S ''h2''"
    by (simp_all add: S_def)
  have "map fst (extract_headings ascii_ucd t) =
     [S ''h1'', S ''h2'', S ''h3'', S ''h4'', S ''h5'', S ''h6'']"
    unfolding e by simp
  moreover have "dict_get (extract_headings ascii_ucd t) (S ''h3'') 0 = 2"
    unfolding e by (simp add: dict_get_Cons m c k)
  ultimately show ?thesis unfolding t_def by blast
qed

section \<open>The orchestrator returns a result\<close>

lemma flesch_Inr: "\<exists>v. flesch_reading_ease U words sentences = Inr v"
  by (simp add: flesch_reading_ease_def Let_def truediv_def)

lemma make_suggestions_Inr:
  "\<exists>l. make_suggestions U text words sentences hs kw flags mt md = Inr l"
proof (cases "length sentences > 0")
  case True
  then show ?thesis
    by (simp add: make_suggestions_def Let_def truediv_def split del: if_split)
next
  case False
  then show ?thesis
    by (simp add: make_suggestions_def Let_def truediv_def split del: if_split)
qed

lemma analyze_Inr: "\<exists>r. analyze U payload = Inr r"
proof -
  let ?raw = "get_or_empty (p_content payload)"
  let ?words = "tokenize_words (normalize_text ?raw)"
  let ?sents = "split_sentences (normalize_text ?raw)"
  obtain q where q: "truediv (length ?words) (max 1 (length ?sents)) = Inr q"
    by (simp add: truediv_def)
  obtain v where v: "flesch_reading_ease U ?words ?sents = Inr v"
    using flesch_Inr by blast
  obtain kw flags where k: "keyword_metrics U ?words (get_or_empty (p_target_keyword payload))
        (get_or_empty (p_related_keywords payload)) = Inr (kw, flags)"
    using keyword_metrics_fields by blast
  obtain l where l: "make_suggestions U ?raw ?words ?sents (extract_headings U ?raw) kw flags
        (get_or_empty (p_meta_title payload)) (get_or_empty (p_meta_description payload)) = Inr l"
    using make_suggestions_Inr by blast
  show ?thesis
    unfolding analyze_def Let_def q v k by (simp add: l)
qed

lemma analyze_result:
  assumes "analyze U payload = Inr r"
  shows "word_count (r_stats r) =
           length (tokenize_words (normalize_text (get_or_empty (p_content payload)))) \<and>
         sentence_count (r_stats r) =
           length (split_sentences (normalize_text (get_or_empty (p_content payload)))) \<and>
         r_headings r = extract_headings U (get_or_empty (p_content payload)) \<and>
         (\<exists>flags.
            keyword_metrics U (tokenize_words (normalize_text (get_or_empty (p_content payload))))
              (get_or_empty (p_target_keyword payload))
              (get_or_empty (p_related_keywords payload)) = Inr (r_keywords r, flags) \<and>
            make_suggestions U (get_or_empty (p_content payload))
              (tokenize_words (normalize_text (get_or_empty (p_content payload))))
              (split_sentences (normalize_text (get_or_empty (p_content payload))))
              (extract_headings U (get_or_empty (p_content payload))) (r_keywords r) flags
              (get_or_empty (p_meta_title payload))
              (get_or_empty (p_meta_description payload)) = Inr (r_suggestions r))"
proof -
  let ?raw = "get_or_empty (p_content payload)"
  let ?words = "tokenize_words (normalize_text ?raw)"
  let ?sents = "split_sentences (normalize_text ?raw)"
  obtain q where q: "truediv (length ?words) (max 1 (length ?sents)) = Inr q"
    by (simp add: truediv_def)
  obtain v where v: "flesch_reading_ease U ?words ?sents = Inr v"
    using flesch_Inr by blast
  obtain kw flags where k: "keyword_metrics U ?words (get_or_empty (p_target_keyword payload))
        (get_or_empty (p_related_keywords payload)) = Inr (kw, flags)"
    using keyword_metrics_fields by blast
  obtain l where l: "make_suggestions U ?raw ?words ?sents (extract_headings U ?raw) kw flags
        (get_or_empty (p_meta_title payload)) (get_or_empty (p_meta_description payload)) = Inr l"
    using make_suggestions_Inr by blast
  have "analyze U payload =
      Inr \<lparr> r_stats = \<lparr> word_count = length ?words,
                         character_count = length (normalize_text ?raw),
                         sentence_count = length ?sents,
                         paragraph_count =
                           length (filter (\<lambda>p. strip p \<noteq> []) (re_split para_delim ?raw)) \<rparr>,
            r_keywords = kw,
            r_headings = extract_headings U ?raw,
            r_readability = \<lparr> flesch_score = v, level = score_band v,
                               avg_words_per_sentence = py_round 2 q \<rparr>,
            r_suggestions = l \<rparr>"
    unfolding analyze_def Let_def q v k by (simp add: l)
  with assms have r: "r = \<lparr> r_stats = \<lparr> word_count = length ?words,
                         character_count = length (normalize_text ?raw),
                         sentence_count = length ?sents,
                         paragraph_count =
                           length (filter (\<lambda>p. strip p \<noteq> []) (re_split para_delim ?raw)) \<rparr>,
            r_keywords = kw,
            r_headings = extract_headings U ?raw,
            r_readability = \<lparr> flesch_score = v, level = score_band v,
                               avg_words_per_sentence = py_round 2 q \<rparr>,
            r_suggestions = l \<rparr>" by simp
  show ?thesis unfolding r using k l by simp
qed

text \<open>
  Claim C3. For every request, whatever strings its five fields hold (absent fields
  included), \<open>analyze\<close> returns a result: no exception is raised. The exception of the
  model is \<open>ZeroDivisionError\<close>, at each of the divisions of the source.
\<close>

theorem analyze_never_raises: "\<exists>r. analyze U payload = Inr r"
  by (rule analyze_Inr)


text \<open>The empty document and a document of punctuation only.\<close>

theorem analyze_never_raises_witness:
  "(\<exists>r. analyze ascii_ucd (content_only []) = Inr r) \<and>
   (\<exists>r. analyze ascii_ucd (content_only (S ''?!... ,;'')) = Inr r)"
  using analyze_never_raises[of ascii_ucd "content_only []"]
    analyze_never_raises[of ascii_ucd "content_only (S ''?!... ,;'')"]
  by blast

section \<open>Words imply sentences\<close>

lemma runs_nonempty: "runs P s \<noteq> [] \<Longrightarrow> \<exists>c \<in> set s. P c"
proof (induction P s rule: runs.induct)
  case (1 P)
  then show ?case by simp
next
  case (2 P c cs)
  then show ?case by (cases "P c") auto
qed

lemma word_re_not_space: "is_word_re c \<Longrightarrow> \<not> is_space c \<and> \<not> is_term c"
  by (auto simp: is_word_re_def is_space_def is_term_def)

lemma in_dropWhile: "c \<in> set xs \<Longrightarrow> \<not> P c \<Longrightarrow> c \<in> set (dropWhile P xs)"
  by (induction xs) auto

lemma strip_keeps: "c \<in> set s \<Longrightarrow> \<not> is_space c \<Longrightarrow> c \<in> set (strip s)"
proof -
  assume c: "c \<in> set s" and n: "\<not> is_space c"
  then have "c \<in> set (dropWhile is_space (rev s))" by (simp add: in_dropWhile)
  then have "c \<in> set (rstrip s)" by (simp add: rstrip_def)
  then have "c \<in> set (dropWhile is_space (rstrip s))" using n by (rule in_dropWhile)
  then show ?thesis by (simp add: strip_def lstrip_def)
qed

lemma sent_delim_keeps:
  assumes "sent_delim t = Some r" and "c \<in> set t" and "\<not> is_term c" and "\<not> is_space c"
  shows "c \<in> set r"
proof (cases t)
  case Nil
  with assms show ?thesis by simp
next
  case (Cons c0 cs)
  with assms(1) have t0: "is_term c0"
    by (auto simp: sent_delim_def split: if_splits)
  with assms Cons have ccs: "c \<in> set cs" by auto
  then have d: "c \<in> set (dropWhile is_term cs)" using assms(3) by (rule in_dropWhile)
  then obtain d0 ds where dd: "dropWhile is_term cs = d0 # ds"
    by (cases "dropWhile is_term cs") auto
  with assms(1) Cons t0 have sp: "is_space d0" and r: "r = ds"
    by (auto simp: sent_delim_def split: if_splits)
  from d dd sp assms(4) have "c \<in> set ds" by auto
  with r show ?thesis by simp
qed

lemma cons_hd_pieces:
  "(\<exists>p \<in> set (cons_hd c ps). x \<in> set p) \<longleftrightarrow> x = c \<or> (\<exists>p \<in> set ps. x \<in> set p)"
  by (cases ps) auto

lemma re_split_keeps:
  "(\<forall>t r. m t = Some r \<longrightarrow> x \<in> set t \<longrightarrow> x \<in> set r) \<Longrightarrow> x \<in> set s \<Longrightarrow>
   \<exists>p \<in> set (re_split m s). x \<in> set p"
proof (induction m s rule: re_split.induct)
  case (1 m)
  then show ?case by simp
next
  case (2 m c cs)
  show ?case
  proof (cases "m (c # cs)")
    case None
    have "x = c \<or> (\<exists>p \<in> set (re_split m cs). x \<in> set p)"
      using "2.IH"(1)[OF None "2.prems"(1)] "2.prems"(2) by auto
    with None show ?thesis by (simp add: cons_hd_pieces)
  next
    case (Some r)
    show ?thesis
    proof (cases "length r \<le> length cs")
      case True
      have "x \<in> set r" using "2.prems" Some by blast
      then have "\<exists>p \<in> set (re_split m r). x \<in> set p"
        using "2.IH"(2)[OF Some True "2.prems"(1)] by blast
      with Some True show ?thesis by simp
    next
      case False
      have "x = c \<or> (\<exists>p \<in> set (re_split m cs). x \<in> set p)"
        using "2.IH"(3)[OF Some False "2.prems"(1)] "2.prems"(2) by auto
      with Some False show ?thesis by (simp add: cons_hd_pieces)
    qed
  qed
qed

lemma split_sentences_nonempty:
  assumes "tokenize_words text \<noteq> []"
  shows "split_sentences text \<noteq> []"
proof -
  from assms have "runs is_word_re text \<noteq> []" by (simp add: tokenize_words_def)
  then obtain c where c: "c \<in> set text" and w: "is_word_re c"
    using runs_nonempty by blast
  from w have ns: "\<not> is_space c" and nt: "\<not> is_term c"
    using word_re_not_space by blast+
  from c ns have "c \<in> set (strip text)" by (rule strip_keeps)
  then obtain p where p: "p \<in> set (re_split sent_delim (strip text))" and cp: "c \<in> set p"
    using re_split_keeps[of sent_delim c "strip text"] sent_delim_keeps[OF _ _ nt ns] by blast
  from cp ns have "c \<in> set (strip p)" by (rule strip_keeps)
  then have "strip p \<noteq> []" by auto
  with p have "filter (\<lambda>p. strip p \<noteq> []) (re_split sent_delim (strip text)) \<noteq> []"
    by (auto simp: filter_empty_conv)
  then show ?thesis by (simp add: split_sentences_def)
qed

text \<open>
  Claim C10. In every result of \<open>analyze\<close>, a positive word count implies a positive
  sentence count.
\<close>

theorem words_imply_sentences:
  "analyze U payload = Inr r \<Longrightarrow> 0 < word_count (r_stats r) \<Longrightarrow> 0 < sentence_count (r_stats r)"
proof -
  assume a: "analyze U payload = Inr r" and w: "0 < word_count (r_stats r)"
  let ?text = "normalize_text (get_or_empty (p_content payload))"
  from analyze_result[OF a] have wc: "word_count (r_stats r) = length (tokenize_words ?text)"
    and sc: "sentence_count (r_stats r) = length (split_sentences ?text)" by blast+
  from w wc have "tokenize_words ?text \<noteq> []" by auto
  then have "split_sentences ?text \<noteq> []" by (rule split_sentences_nonempty)
  with sc show ?thesis by simp
qed

text \<open>The document \<open>Hi\<close> has a word, and so a sentence.\<close>

theorem words_imply_sentences_witness:
  "\<exists>r. analyze ascii_ucd (content_only (S ''Hi'')) = Inr r \<and>
        0 < word_count (r_stats r) \<and> 0 < sentence_count (r_stats r)"
proof -
  obtain r where r: "analyze ascii_ucd (content_only (S ''Hi'')) = Inr r"
    using analyze_Inr by blast
  have "tokenize_words (normalize_text (S ''Hi'')) = [S ''hi'']"
    by (simp add: tokenize_words_def normalize_text_def replace_ch_def is_word_re_def str_eval)
  with analyze_result[OF r] have w: "0 < word_count (r_stats r)"
    by (simp add: content_only_def get_or_empty_def)
  from words_imply_sentences[OF r w] r w show ?thesis by blast
qed


section \<open>Suggestions for a short document without headings\<close>

lemma make_suggestions_fifty:
  assumes "length words = 50"
    and "dict_get hs (S ''h1'') 0 = 0" and "dict_get hs (S ''h2'') 0 = 0"
    and "target_keyword kw = []" and "mt = []" and "md = []"
  shows "make_suggestions U text words sentences hs kw flags mt md =
     Inr ([msg_depth] @
          (if 0 < length sentences \<and> 22 < fl (50 / real (length sentences))
           then [msg_shorten] else []) @
          [msg_add_h1, msg_add_h2, msg_add_kw, msg_add_title, msg_add_desc] @
          (if filter (\<lambda>p. 110 < length (split_ws p))
                (map strip (filter (\<lambda>p. strip p \<noteq> []) (re_split para_delim text))) \<noteq> []
           then [msg_paragraphs] else []))"
  using assms by (simp add: make_suggestions_def Let_def truediv_def strip_Nil)

lemma subseq_sandwich: "subseq (a # bs) ([a] @ xs @ bs @ ys)"
proof -
  have "subseq bs bs" by (rule list_emb_refl) simp
  then have "subseq bs (bs @ ys)" by (rule list_emb_prefix)
  then have "subseq bs (xs @ bs @ ys)" by (rule list_emb_append2)
  then show ?thesis by simp
qed

text \<open>
  Claim C8. When the result of \<open>analyze\<close> counts 50 words and no heading, its target keyword
  is empty and the request has an empty meta title and an empty meta description, the
  suggestions contain, in this order, the messages to add depth, to add an H1, to add H2s,
  to add a target keyword, to add a meta title and to add a meta description.
\<close>

theorem fifty_word_suggestions:
  assumes "analyze U payload = Inr r"
    and "word_count (r_stats r) = 50"
    and "\<forall>k. dict_get (r_headings r) k 0 = 0"
    and "target_keyword (r_keywords r) = []"
    and "get_or_empty (p_meta_title payload) = []"
    and "get_or_empty (p_meta_description payload) = []"
  shows "subseq [msg_depth, msg_add_h1, msg_add_h2, msg_add_kw, msg_add_title, msg_add_desc]
           (r_suggestions r)"
proof -
  let ?raw = "get_or_empty (p_content payload)"
  let ?words = "tokenize_words (normalize_text ?raw)"
  let ?sents = "split_sentences (normalize_text ?raw)"
  from analyze_result[OF assms(1)] obtain flags where
    wc: "word_count (r_stats r) = length ?words" and
    hs: "r_headings r = extract_headings U ?raw" and
    ms: "make_suggestions U ?raw ?words ?sents (extract_headings U ?raw) (r_keywords r) flags
           (get_or_empty (p_meta_title payload)) (get_or_empty (p_meta_description payload))
         = Inr (r_suggestions r)"
    by blast
  have n: "length ?words = 50" using wc assms(2) by simp
  have h: "dict_get (extract_headings U ?raw) (S ''h1'') 0 = 0"
    "dict_get (extract_headings U ?raw) (S ''h2'') 0 = 0"
    using assms(3) hs by simp_all
  let ?xs = "if 0 < length ?sents \<and> 22 < fl (50 / real (length ?sents))
             then [msg_shorten] else []"
  let ?ys = "if filter (\<lambda>p. 110 < length (split_ws p))
                (map strip (filter (\<lambda>p. strip p \<noteq> []) (re_split para_delim ?raw))) \<noteq> []
             then [msg_paragraphs] else []"
  have "Inr (r_suggestions r) =
      (Inr ([msg_depth] @ ?xs @
            [msg_add_h1, msg_add_h2, msg_add_kw, msg_add_title, msg_add_desc] @ ?ys)
        :: error + pystr list)"
    unfolding ms[symmetric]
    by (rule make_suggestions_fifty[OF n h assms(4) assms(5) assms(6)])
  then have eq: "r_suggestions r =
      [msg_depth] @ ?xs @ [msg_add_h1, msg_add_h2, msg_add_kw, msg_add_title, msg_add_desc] @ ?ys"
    by (simp only: sum.inject)
  show ?thesis unfolding eq by (rule subseq_sandwich)
qed


lemma keyword_metrics_target:
  assumes "keyword_metrics U words target related = Inr (kw, flags)"
  shows "target_keyword kw = str_lower U (strip target) \<and>
     target_count kw =
       (if str_lower U (strip target) \<noteq> []
        then count_phrase U (str_lower U (strip target)) None (join_sp words) else 0) \<and>
     has_target flags = (str_lower U (strip target) \<noteq> [] \<and> 0 < target_count kw) \<and>
     density_low flags =
       (str_lower U (strip target) \<noteq> [] \<and>
        (if 0 < length words
         then fmul (fl (real (target_count kw) / real (length words))) 100 else 0) < 1 / 2) \<and>
     density_high flags =
       (str_lower U (strip target) \<noteq> [] \<and>
        3 < (if 0 < length words
             then fmul (fl (real (target_count kw) / real (length words))) 100 else 0))"
proof (cases "0 < length words")
  case True
  with assms show ?thesis
    by (auto simp: keyword_metrics_def Let_def truediv_def split del: if_split)
next
  case False
  with assms show ?thesis
    by (auto simp: keyword_metrics_def Let_def truediv_def split del: if_split)
qed

lemma fifty_words_tokens: "length (tokenize_words (normalize_text fifty_words)) = 50"
  by (simp add: fifty_words_def tokenize_words_def normalize_text_def replace_ch_def
      is_word_re_def str_eval)

lemma fifty_words_headings:
  "extract_headings ascii_ucd fifty_words =
     [(S ''h1'', 0), (S ''h2'', 0), (S ''h3'', 0), (S ''h4'', 0), (S ''h5'', 0), (S ''h6'', 0)]"
  unfolding extract_headings_eq
  by (simp add: fifty_words_def heading_eval str_eval cong: let_weak_cong)

text \<open>A document of fifty one-letter words, alone in its request.\<close>

theorem fifty_word_suggestions_witness:
  "\<exists>r. analyze ascii_ucd (content_only fifty_words) = Inr r \<and>
        word_count (r_stats r) = 50 \<and>
        (\<forall>k. dict_get (r_headings r) k 0 = 0) \<and>
        target_keyword (r_keywords r) = [] \<and>
        get_or_empty (p_meta_title (content_only fifty_words)) = [] \<and>
        get_or_empty (p_meta_description (content_only fifty_words)) = [] \<and>
        subseq [msg_depth, msg_add_h1, msg_add_h2, msg_add_kw, msg_add_title, msg_add_desc]
          (r_suggestions r)"
proof -
  obtain r where r: "analyze ascii_ucd (content_only fifty_words) = Inr r"
    using analyze_Inr by blast
  from analyze_result[OF r] obtain flags where
    wc: "word_count (r_stats r) = length (tokenize_words (normalize_text fifty_words))" and
    hs: "r_headings r = extract_headings ascii_ucd fifty_words" and
    km: "keyword_metrics ascii_ucd (tokenize_words (normalize_text fifty_words)) [] []
           = Inr (r_keywords r, flags)"
    by (auto simp: content_only_def get_or_empty_def)
  have a: "word_count (r_stats r) = 50" using wc by (simp add: fifty_words_tokens)
  have b: "\<forall>k. dict_get (r_headings r) k 0 = 0"
    unfolding hs fifty_words_headings by (simp add: dict_get_Cons dict_get_Nil)
  have c: "target_keyword (r_keywords r) = []"
    using keyword_metrics_target[OF km] by (simp add: strip_Nil ascii_ucd_def)
  have d: "get_or_empty (p_meta_title (content_only fifty_words)) = []"
    "get_or_empty (p_meta_description (content_only fifty_words)) = []"
    by (simp_all add: content_only_def get_or_empty_def)
  from fifty_word_suggestions[OF r a b c d] r a b c d show ?thesis by blast
qed


section \<open>The end-to-end scenario\<close>

lemma scenario_text:
  "normalize_text scenario_content = S ''# My Title This is a test. It has two sentences.''"
  by (simp add: scenario_content_def normalize_text_def replace_ch_def str_eval)

lemma scenario_words:
  "tokenize_words (S ''# My Title This is a test. It has two sentences.'') =
     [S ''my'', S ''title'', S ''this'', S ''is'', S ''a'', S ''test'', S ''it'', S ''has'',
      S ''two'', S ''sentences'']"
  by (simp add: tokenize_words_def is_word_re_def str_eval)

lemma scenario_sentences:
  "split_sentences (S ''# My Title This is a test. It has two sentences.'') =
     [S ''# My Title This is a test'', S ''It has two sentences'']"
  by (simp add: split_sentences_def sent_delim_def is_term_def str_eval cong: let_weak_cong)

lemma scenario_headings:
  "extract_headings ascii_ucd scenario_content =
     [(S ''h1'', 1), (S ''h2'', 0), (S ''h3'', 0), (S ''h4'', 0), (S ''h5'', 0), (S ''h6'', 0)]"
  unfolding extract_headings_eq
  by (simp add: scenario_content_def heading_eval str_eval cong: let_weak_cong)

lemma scenario_target: "str_lower ascii_ucd (strip (S ''test'')) = S ''test''"
  by (simp add: str_eval)

lemma scenario_count:
  "count_phrase ascii_ucd (S ''test'') None
     (join_sp [S ''my'', S ''title'', S ''this'', S ''is'', S ''a'', S ''test'', S ''it'', S ''has'',
        S ''two'', S ''sentences'']) = 1"
  by (simp add: phrase_at_def boundary_def word_opt_def is_wordch_def str_eval)

lemma scenario_related:
  "map (\<lambda>r. str_lower ascii_ucd (strip r))
       (filter (\<lambda>r. strip r \<noteq> []) (split_on 44 (S ''sentence, example'')))
     = [S ''sentence'', S ''example'']"
  by (simp add: str_eval)

lemma scenario_paragraphs:
  "filter (\<lambda>p. 110 < length (split_ws p))
     (map strip (filter (\<lambda>p. strip p \<noteq> [])
        (re_split para_delim scenario_content))) = []"
  by (simp add: scenario_content_def para_delim_def split_ws_def str_eval cong: let_weak_cong)


lemma keyword_metrics_related:
  assumes "keyword_metrics U words target related = Inr (kw, flags)"
  shows "related_counts kw =
       fold (\<lambda>r d. dict_set r (count_list words r) d)
         (map (\<lambda>r. str_lower U (strip r)) (filter (\<lambda>r. strip r \<noteq> []) (split_on 44 related))) []"
proof -
  obtain kw' flags' where k: "keyword_metrics U words target related = Inr (kw', flags')"
    and rc: "related_counts kw' =
       fold (\<lambda>r d. dict_set r (dict_get (Counter words) r 0) d)
         (map (\<lambda>r. str_lower U (strip r)) (filter (\<lambda>r. strip r \<noteq> []) (split_on 44 related))) []"
    using keyword_metrics_fields[of U words target related] by blast
  from k assms have "kw' = kw" by simp
  with rc show ?thesis by (simp add: Counter_get)
qed

text \<open>
  Claim C1. For the request of the scenario, \<open>analyze\<close> returns a result with a word count
  of 10, one \<open>h1\<close>, a target count of 1, the related counts \<open>sentence: 0\<close> and
  \<open>example: 0\<close>, and suggestions that contain the messages to add a meta title, to add a
  meta description and to add depth.
\<close>

theorem scenario_result:
  "\<exists>r. analyze ascii_ucd scenario_payload = Inr r \<and>
        word_count (r_stats r) = 10 \<and>
        dict_get (r_headings r) (S ''h1'') 0 = 1 \<and>
        target_count (r_keywords r) = 1 \<and>
        related_counts (r_keywords r) = [(S ''sentence'', 0), (S ''example'', 0)] \<and>
        msg_add_title \<in> set (r_suggestions r) \<and>
        msg_add_desc \<in> set (r_suggestions r) \<and>
        msg_depth \<in> set (r_suggestions r) \<and>
        r_suggestions r = [msg_depth, msg_add_h2, msg_density_high, msg_add_title, msg_add_desc]"
proof -
  define raw where "raw = scenario_content"
  define words where "words = [S ''my'', S ''title'', S ''this'', S ''is'', S ''a'', S ''test'',
      S ''it'', S ''has'', S ''two'', S ''sentences'']"
  define sents where "sents = [S ''# My Title This is a test'', S ''It has two sentences'']"
  define hs where "hs = extract_headings ascii_ucd raw"
  have w: "tokenize_words (normalize_text raw) = words"
    unfolding raw_def words_def scenario_text scenario_words ..
  have s: "split_sentences (normalize_text raw) = sents"
    unfolding raw_def sents_def scenario_text scenario_sentences ..
  have lw: "length words = 10" and ls: "length sents = 2"
    by (simp_all add: words_def sents_def)
  have h: "hs = [(S ''h1'', 1), (S ''h2'', 0), (S ''h3'', 0), (S ''h4'', 0), (S ''h5'', 0),
      (S ''h6'', 0)]"
    unfolding hs_def raw_def by (rule scenario_headings)
  have h1: "dict_get hs (S ''h1'') 0 = 1" and h2: "dict_get hs (S ''h2'') 0 = 0"
    and h3: "dict_get hs (S ''h3'') 0 = 0"
    unfolding h by (simp_all add: dict_get_Cons S_def)
  have pg: "filter (\<lambda>p. 110 < length (split_ws p))
     (map strip (filter (\<lambda>p. strip p \<noteq> []) (re_split para_delim raw))) = []"
    unfolding raw_def by (rule scenario_paragraphs)
  obtain r where r: "analyze ascii_ucd scenario_payload = Inr r"
    using analyze_Inr by blast
  from analyze_result[OF r] obtain flags where
    wc: "word_count (r_stats r) = length words" and
    rh: "r_headings r = hs" and
    km: "keyword_metrics ascii_ucd words (S ''test'') (S ''sentence, example'')
           = Inr (r_keywords r, flags)" and
    ms: "make_suggestions ascii_ucd raw words sents hs (r_keywords r) flags [] []
           = Inr (r_suggestions r)"
    by (auto simp: scenario_payload_def get_or_empty_def raw_def[symmetric] w s hs_def[symmetric])
  have ne: "S ''test'' \<noteq> []" by (simp add: S_def)
  have cnt: "count_phrase ascii_ucd (S ''test'') None (join_sp words) = 1"
    unfolding words_def by (rule scenario_count)
  have tc: "target_count (r_keywords r) = 1" and tk: "target_keyword (r_keywords r) = S ''test''"
    using keyword_metrics_target[OF km] ne
    by (simp_all add: scenario_target cnt)
  have dens: "fmul (fl (1 / 10)) 100 = 10"
    by (simp add: fl_eval cong: let_weak_cong)
  have fl: "has_target flags" "\<not> density_low flags" "density_high flags"
    using keyword_metrics_target[OF km] ne
    by (simp_all add: scenario_target tc lw dens)
  have rc: "related_counts (r_keywords r) = [(S ''sentence'', 0), (S ''example'', 0)]"
    unfolding keyword_metrics_related[OF km] scenario_related
    by (simp add: words_def S_def)
  have avg: "truediv 10 2 = Inr 5"
    by (simp add: fl_eval cong: let_weak_cong)
  have "make_suggestions ascii_ucd raw words sents hs (r_keywords r) flags [] [] =
      Inr [msg_depth, msg_add_h2, msg_density_high, msg_add_title, msg_add_desc]"
    by (simp add: make_suggestions_def Let_def lw ls avg h1 h2 h3 tk ne fl strip_Nil pg
        cong: let_weak_cong)
  with ms have sg: "r_suggestions r =
      [msg_depth, msg_add_h2, msg_density_high, msg_add_title, msg_add_desc]" by simp
  show ?thesis using r wc lw rh h1 tc rc sg by simp
qed

end
